theory Spec2Isabelle
  imports Main "HOL-Library.Multiset"
begin

section \<open>Go string and path helpers\<close>

text \<open>
  The cache passes of tfvenv parse artifact file names with \<^verbatim>\<open>strings.HasPrefix\<close>,
  \<^verbatim>\<open>strings.TrimPrefix\<close>, \<^verbatim>\<open>strings.TrimSuffix\<close>, \<^verbatim>\<open>strings.Split\<close> and
  \<^verbatim>\<open>filepath.Ext\<close>. Strings are byte lists; the functions below follow the Go
  standard library on them.
\<close>

definition HasPrefix :: "string \<Rightarrow> string \<Rightarrow> bool" where
  "HasPrefix s pre = (take (length pre) s = pre)"

definition HasSuffix :: "string \<Rightarrow> string \<Rightarrow> bool" where
  "HasSuffix s suf = (length suf \<le> length s \<and> drop (length s - length suf) s = suf)"

definition TrimPrefix :: "string \<Rightarrow> string \<Rightarrow> string" where
  "TrimPrefix s pre = (if HasPrefix s pre then drop (length pre) s else s)"

definition TrimSuffix :: "string \<Rightarrow> string \<Rightarrow> string" where
  "TrimSuffix s suf = (if HasSuffix s suf then take (length s - length suf) s else s)"

text \<open>
  \<^verbatim>\<open>strings.Split(s, sep)\<close> for a non-empty separator: cut at the first occurrence of
  \<open>sep\<close>, continue behind it; the result has one element more than there are
  (non-overlapping, leftmost) occurrences. \<open>split_from sep cur rest\<close> scans \<open>rest\<close>
  with \<open>cur\<close> the element collected so far. Every call site passes a literal,
  non-empty separator; for the empty separator Go explodes the string into its
  characters, which is written out below.
\<close>

function split_from :: "string \<Rightarrow> string \<Rightarrow> string \<Rightarrow> string list" where
  "split_from sep cur [] = [cur]"
| "split_from sep cur (c # cs) =
     (if sep \<noteq> [] \<and> HasPrefix (c # cs) sep
      then cur # split_from sep [] (drop (length sep) (c # cs))
      else split_from sep (cur @ [c]) cs)"
  by pat_completeness auto
termination
  by (relation "measure (\<lambda>(sep, cur, rest). length rest)") auto

definition Split :: "string \<Rightarrow> string \<Rightarrow> string list" where
  "Split s sep = (if sep = [] then map (\<lambda>c. [c]) s else split_from sep [] s)"

text \<open>
  \<^verbatim>\<open>filepath.Ext(path)\<close>: the suffix beginning at the last dot of the final path
  element, empty when that element has no dot. The Go loop runs from the end of the
  string; \<open>ext_scan\<close> runs over the reversed string with the suffix passed so far.
\<close>

fun ext_scan :: "string \<Rightarrow> string \<Rightarrow> string" where
  "ext_scan [] suffix = []"
| "ext_scan (c # cs) suffix =
     (if c = CHR ''/'' then []
      else if c = CHR ''.'' then c # suffix
      else ext_scan cs (c # suffix))"

definition filepath_Ext :: "string \<Rightarrow> string" where
  "filepath_Ext p = ext_scan (rev p) []"

section \<open>Errors\<close>

text \<open>
  The Go code builds its errors with \<^verbatim>\<open>fmt.Errorf\<close>; each constructor stands for one
  message of the source, wrapping (\<^verbatim>\<open>%w\<close>) the underlying error where the source does.
  \<open>OsError\<close> is an error handed up by the operating system, the file-path
  functions or the HTTP client; \<open>LibError\<close> one of a library parser.
\<close>

datatype error =
    OsError string
  | LibError string
  | ReadConfigDirFailed error
  | ListEnvironmentsFailed error
  | CollectUsedProvidersFailed error
  | CleanPluginCacheFailed error
  | CleanDuplicatesFailed error
  | UnsupportedSourceFormat string
  | UnsupportedPublisher
  | RegistryFetchFailed string error
  | RegistryStatus string nat
  | RegistryDecodeFailed error
  | FetchAvailableVersionsFailed string error
  | InvalidConstraint string string error
  | NoMatchingVersion string string

section \<open>The plugin cache as the walk sees it\<close>

text \<open>
  Both passes run \<^verbatim>\<open>filepath.Walk\<close> over the plugin cache directory with a callback
  \<^verbatim>\<open>func(path, info, err)\<close>. A \<open>visit\<close> is one call of that callback: either with
  the file information of an entry, or with the error the walk met at a path. The
  cache is the list of visits in traversal (lexical) order, together with the set of
  paths on which \<^verbatim>\<open>os.Remove\<close> fails. The walk lists a directory before it visits
  its entries and every path occurs once, so removing the file being visited takes
  exactly that visit out of the tree and leaves the rest of the walk as it was.
\<close>

record file_info =
  Name :: string
  IsDir :: bool

datatype visit = Visit string file_info | VisitErr string error

record plugin_cache =
  tree :: "visit list"
  unremovable :: "string set"

definition os_Remove :: "string set \<Rightarrow> string \<Rightarrow> error option" where
  "os_Remove locked path = (if path \<in> locked then Some (OsError path) else None)"

text \<open>A callback that keeps the visited entry and lets the walk go on.\<close>

definition keep :: "visit \<Rightarrow> error option \<times> visit list \<Rightarrow> error option \<times> visit list" where
  "keep v r = (fst r, v # snd r)"

section \<open>Pass A: duplicate removal\<close>

text \<open>
  \<open>cleanDuplicateProviders\<close>, lines 1003 to 1050. The key of a file is computed at
  lines 1018 to 1028: the name must begin with \<^verbatim>\<open>terraform-provider-\<close> and
  \<^verbatim>\<open>strings.Split(filename, "_v")\<close> must give exactly two parts; the key is the first
  part without the prefix, an underscore, and the second part without a trailing
  \<^verbatim>\<open>.zip\<close>. A file without such a key is passed over.
\<close>

definition duplicate_key :: "string \<Rightarrow> string option" where
  "duplicate_key filename =
     (if HasPrefix filename ''terraform-provider-'' then
        (let parts = Split filename ''_v'' in
         if length parts \<noteq> 2 then None
         else (let provider = TrimPrefix (parts ! 0) ''terraform-provider-'';
                   version = TrimSuffix (parts ! 1) ''.zip''
               in Some (provider @ ''_'' @ version)))
      else None)"

text \<open>
  The walk with its callback. \<open>uniqueProviders\<close> is the map of keys seen so far (only
  \<open>true\<close> is ever stored, so it is a set). An error handed to the callback is returned
  and ends the walk; a failed removal is logged and the walk goes on.
\<close>

fun dup_walk :: "string set \<Rightarrow> string set \<Rightarrow> visit list \<Rightarrow> error option \<times> visit list" where
  "dup_walk locked uniqueProviders [] = (None, [])"
| "dup_walk locked uniqueProviders (VisitErr path e # vs) = (Some e, VisitErr path e # vs)"
| "dup_walk locked uniqueProviders (Visit path info # vs) =
     (if IsDir info then keep (Visit path info) (dup_walk locked uniqueProviders vs)
      else
        (case duplicate_key (Name info) of
           None \<Rightarrow> keep (Visit path info) (dup_walk locked uniqueProviders vs)
         | Some key \<Rightarrow>
             if key \<in> uniqueProviders then
               (case os_Remove locked path of
                  Some e \<Rightarrow> keep (Visit path info) (dup_walk locked uniqueProviders vs)
                | None \<Rightarrow> dup_walk locked uniqueProviders vs)
             else keep (Visit path info) (dup_walk locked (insert key uniqueProviders) vs)))"

definition cleanDuplicateProviders :: "plugin_cache \<Rightarrow> error option \<times> plugin_cache" where
  "cleanDuplicateProviders pluginCache =
     (case dup_walk (unremovable pluginCache) {} (tree pluginCache) of
        (Some e, t) \<Rightarrow> (Some (CleanDuplicatesFailed e), pluginCache\<lparr>tree := t\<rparr>)
      | (None, t) \<Rightarrow> (None, pluginCache\<lparr>tree := t\<rparr>))"

section \<open>Pass B: the walk that removes unused plugins\<close>

text \<open>
  The callback of \<open>cleanUnusedProviders\<close>, lines 724 to 773. The key (lines 739 to 759):
  the name must begin with \<^verbatim>\<open>terraform-provider-\<close>; the extension
  \<^verbatim>\<open>filepath.Ext(filename)\<close> is cut off, the rest is split at every underscore and must
  give at least two parts; the key is the first part without the prefix, an
  underscore, and the second part without a leading \<^verbatim>\<open>v\<close>.
\<close>

definition unused_key :: "string \<Rightarrow> string option" where
  "unused_key filename =
     (if HasPrefix filename ''terraform-provider-'' then
        (let baseName = TrimSuffix filename (filepath_Ext filename);
             parts = Split baseName ''_'' in
         if length parts < 2 then None
         else (let providerPart = parts ! 0;
                   versionPart = parts ! 1;
                   providerName = TrimPrefix providerPart ''terraform-provider-'';
                   providerVersion = TrimPrefix versionPart ''v''
               in Some (providerName @ ''_'' @ providerVersion)))
      else None)"

fun unused_walk :: "string set \<Rightarrow> string set \<Rightarrow> visit list \<Rightarrow> error option \<times> visit list" where
  "unused_walk locked usedProviders [] = (None, [])"
| "unused_walk locked usedProviders (VisitErr path e # vs) = (Some e, VisitErr path e # vs)"
| "unused_walk locked usedProviders (Visit path info # vs) =
     (if IsDir info then keep (Visit path info) (unused_walk locked usedProviders vs)
      else
        (case unused_key (Name info) of
           None \<Rightarrow> keep (Visit path info) (unused_walk locked usedProviders vs)
         | Some key \<Rightarrow>
             if key \<notin> usedProviders then
               (case os_Remove locked path of
                  Some e \<Rightarrow> keep (Visit path info) (unused_walk locked usedProviders vs)
                | None \<Rightarrow> unused_walk locked usedProviders vs)
             else keep (Visit path info) (unused_walk locked usedProviders vs)))"

section \<open>Libraries and the outside world\<close>

text \<open>
  The engine calls three libraries that are not part of the repository, and reads
  the file system and the provider registry. Their operations are parameters of the
  embedding: the functions of the source are written over them exactly as the source
  calls them.
\<close>

subsection \<open>HCL syntax trees\<close>

text \<open>
  \<^verbatim>\<open>hcl.Diagnostics\<close> with \<^verbatim>\<open>HasErrors\<close>; \<^verbatim>\<open>cty.Value\<close> with \<^verbatim>\<open>AsString\<close>, which
  panics on every value that is not a string (\<open>None\<close> here); an expression is what
  \<^verbatim>\<open>Expr.Value(nil)\<close> returns for it: a value and diagnostics. A body has attributes
  (names are unique in a parsed body) and blocks.
\<close>

datatype severity = DiagError | DiagWarning

type_synonym diagnostics = "(severity \<times> string) list"

definition HasErrors :: "diagnostics \<Rightarrow> bool" where
  "HasErrors diags = (DiagError \<in> fst ` set diags)"

datatype cty_value =
    StringVal string
  | NumberIntVal int
  | BoolVal bool
  | NullVal
  | ObjectVal "(string \<times> cty_value) list"

fun AsString :: "cty_value \<Rightarrow> string option" where
  "AsString (StringVal s) = Some s"
| "AsString v = None"

datatype expression = Expression cty_value diagnostics

datatype hcl_body = Body (Attributes: "(string \<times> expression) list") (Blocks: "hcl_block list")
  and hcl_block = Block (Type: string) (Labels: "string list") (BlockBody: hcl_body)

text \<open>
  \<^verbatim>\<open>Body.PartialContent\<close> for a schema with one block type and no label names, as
  both calls of the source have it: the blocks of that type come back, a block of
  that type that carries a label is an error (\<^verbatim>\<open>Extraneous label\<close>), everything else
  is left alone.
\<close>

definition PartialContent :: "string \<Rightarrow> hcl_body \<Rightarrow> hcl_block list \<times> diagnostics" where
  "PartialContent blockType b =
     (filter (\<lambda>blk. Type blk = blockType \<and> Labels blk = []) (Blocks b),
      map (\<lambda>blk. (DiagError, ''Extraneous label for '' @ blockType))
        (filter (\<lambda>blk. Type blk = blockType \<and> Labels blk \<noteq> []) (Blocks b)))"

definition OfType :: "string \<Rightarrow> hcl_block list \<Rightarrow> hcl_block list" where
  "OfType blockType blocks = filter (\<lambda>blk. Type blk = blockType) blocks"

text \<open>
  \<^verbatim>\<open>Body.Content\<close> for a schema of optional attributes and no blocks: the attributes
  named in the schema come back; every other attribute of the body is an error
  (\<^verbatim>\<open>Unsupported argument\<close>) and so is every block (\<^verbatim>\<open>Unsupported block type\<close>).
\<close>

definition Content :: "string list \<Rightarrow> hcl_body \<Rightarrow> (string \<times> expression) list \<times> diagnostics" where
  "Content names b =
     (filter (\<lambda>a. fst a \<in> set names) (Attributes b),
      map (\<lambda>a. (DiagError, ''Unsupported argument'')) (filter (\<lambda>a. fst a \<notin> set names) (Attributes b))
      @ map (\<lambda>blk. (DiagError, ''Unsupported block type'')) (Blocks b))"

subsection \<open>Versions, constraints and sorting\<close>

text \<open>
  \<^verbatim>\<open>hashicorp/go-version\<close> (\<open>NewVersion\<close>, \<open>Original\<close>, \<open>LessThan\<close>, \<open>NewConstraint\<close>,
  \<open>Check\<close>) and \<^verbatim>\<open>sort.Sort\<close> of the standard library, which takes the
  \<^verbatim>\<open>Less\<close> of the collection.
\<close>

record ('v, 'c) libraries =
  NewVersion :: "string \<Rightarrow> error + 'v"
  Original :: "'v \<Rightarrow> string"
  LessThan :: "'v \<Rightarrow> 'v \<Rightarrow> bool"
  NewConstraint :: "string \<Rightarrow> error + 'c"
  Check :: "'c \<Rightarrow> 'v \<Rightarrow> bool"
  sort_Sort :: "('v \<Rightarrow> 'v \<Rightarrow> bool) \<Rightarrow> 'v list \<Rightarrow> 'v list"

subsection \<open>File system and registry\<close>

text \<open>
  A path built by \<^verbatim>\<open>filepath.Join\<close> is kept as the list of its elements. The HTTP
  response carries its status code and what the JSON decoder makes of its body: an
  error, or the list of the \<^verbatim>\<open>version\<close> strings.
\<close>

datatype path = filepath_Join "string list"

record http_response =
  StatusCode :: nat
  Decode :: "error + string list"

record world =
  os_ReadDir :: "path \<Rightarrow> error + file_info list"
  filepath_Glob :: "path \<Rightarrow> string \<Rightarrow> error + string list"
  ParseHCLFile :: "string \<Rightarrow> hcl_body \<times> diagnostics"
  http_Get :: "string \<Rightarrow> error + http_response"

section \<open>Environment enumeration\<close>

definition getEnvironments :: "world \<Rightarrow> string \<Rightarrow> error + string list" where
  "getEnvironments W envDir =
     (let configPath = filepath_Join [envDir, ''config''] in
      case os_ReadDir W configPath of
        Inl err \<Rightarrow> Inl (ReadConfigDirFailed err)
      | Inr entries \<Rightarrow> Inr (map Name (filter IsDir entries)))"

section \<open>Version resolution\<close>

definition extractProviderShortName :: "string \<Rightarrow> string" where
  "extractProviderShortName source =
     (let parts = Split source ''/'' in
      if length parts \<noteq> 2 then source else parts ! 1)"

text \<open>Versions that do not parse are logged and dropped (lines 989 to 997).\<close>

fun parse_versions :: "('v, 'c) libraries \<Rightarrow> string list \<Rightarrow> 'v list" where
  "parse_versions L [] = []"
| "parse_versions L (v # vs) =
     (case NewVersion L v of
        Inl err \<Rightarrow> parse_versions L vs
      | Inr ver \<Rightarrow> ver # parse_versions L vs)"

definition getProviderAvailableVersions ::
  "('v, 'c) libraries \<Rightarrow> world \<Rightarrow> string \<Rightarrow> error + 'v list" where
  "getProviderAvailableVersions L W source =
     (let parts = Split source ''/'' in
      if length parts \<noteq> 2 then Inl (UnsupportedSourceFormat source)
      else
        (let publisher = parts ! 0; provider = parts ! 1 in
         if publisher \<noteq> ''hashicorp'' then Inl UnsupportedPublisher
         else
           (let apiURL = ''https://registry.terraform.io/v1/providers/'' @ publisher @ ''/''
                           @ provider @ ''/versions'' in
            case http_Get W apiURL of
              Inl err \<Rightarrow> Inl (RegistryFetchFailed apiURL err)
            | Inr resp \<Rightarrow>
                if StatusCode resp \<noteq> 200 then Inl (RegistryStatus apiURL (StatusCode resp))
                else
                  (case Decode resp of
                     Inl err \<Rightarrow> Inl (RegistryDecodeFailed err)
                   | Inr pvResp \<Rightarrow> Inr (parse_versions L pvResp)))))"

text \<open>
  \<^verbatim>\<open>sort.Sort(sort.Reverse(version.Collection(vs)))\<close>: the collection's \<^verbatim>\<open>Less\<close> is
  \<open>LessThan\<close>, and \<^verbatim>\<open>sort.Reverse\<close> swaps its arguments. The loop that follows returns at
  the first version that passes the check.
\<close>

definition sort_Reverse :: "('v, 'c) libraries \<Rightarrow> 'v list \<Rightarrow> 'v list" where
  "sort_Reverse L vs = sort_Sort L (\<lambda>a b. LessThan L b a) vs"

definition resolveProviderVersion ::
  "('v, 'c) libraries \<Rightarrow> world \<Rightarrow> string \<Rightarrow> string \<Rightarrow> error + string" where
  "resolveProviderVersion L W source constraint =
     (case getProviderAvailableVersions L W source of
        Inl err \<Rightarrow> Inl (FetchAvailableVersionsFailed source err)
      | Inr availableVersions \<Rightarrow>
          (case NewConstraint L constraint of
             Inl err \<Rightarrow> Inl (InvalidConstraint constraint source err)
           | Inr vConstraint \<Rightarrow>
               (case find (Check L vConstraint) (sort_Reverse L availableVersions) of
                  Some v \<Rightarrow> Inr (Original L v)
                | None \<Rightarrow> Inl (NoMatchingVersion source constraint))))"

section \<open>Collecting the used providers\<close>

text \<open>
  \<open>collectUsedProviders\<close>, lines 784 to 905, is five nested loops over one map. A Go
  function either returns or panics; \<open>for_each\<close> runs a loop body over a slice and
  stops at a panic. A \<^verbatim>\<open>continue\<close> of the source is a body that returns the map
  unchanged.
\<close>

datatype 'a go_result = Returned 'a | Panicked string

fun for_each :: "('a \<Rightarrow> 's \<Rightarrow> 's go_result) \<Rightarrow> 'a list \<Rightarrow> 's \<Rightarrow> 's go_result" where
  "for_each body [] s = Returned s"
| "for_each body (x # xs) s =
     (case body x s of
        Panicked msg \<Rightarrow> Panicked msg
      | Returned s' \<Rightarrow> for_each body xs s')"

text \<open>
  Lines 865 to 898, the body of the loop over \<open>rpContent.Attributes\<close>. Go ranges over
  that map in no fixed order; here the attributes are taken in the order of the body.
  \<open>usedProviders\<close> is a \<^verbatim>\<open>map[string]bool\<close> in which only \<^verbatim>\<open>true\<close> is stored: the
  set of its keys.
\<close>

definition provider_body ::
  "('v, 'c) libraries \<Rightarrow> world \<Rightarrow> (string \<times> expression) list \<Rightarrow> string \<times> expression
     \<Rightarrow> string set \<Rightarrow> string set go_result" where
  "provider_body L W rpAttributes entry usedProviders =
     (case snd entry of Expression sourceVal diags \<Rightarrow>
        if HasErrors diags then Returned usedProviders
        else
          (case AsString sourceVal of
             None \<Rightarrow> Panicked ''not a string''
           | Some sourceStr \<Rightarrow>
               (case map_of rpAttributes ''version'' of
                  None \<Rightarrow> Returned usedProviders
                | Some (Expression versionVal diags') \<Rightarrow>
                    if HasErrors diags' then Returned usedProviders
                    else
                      (case AsString versionVal of
                         None \<Rightarrow> Panicked ''not a string''
                       | Some versionStr \<Rightarrow>
                           (case resolveProviderVersion L W sourceStr versionStr of
                              Inl err \<Rightarrow> Returned usedProviders
                            | Inr exactVersion \<Rightarrow>
                                Returned (insert (extractProviderShortName sourceStr @ ''_''
                                                    @ exactVersion) usedProviders))))))"

text \<open>Lines 841 to 899, the body of the loop over the \<^verbatim>\<open>required_providers\<close> blocks.\<close>

definition required_providers_body ::
  "('v, 'c) libraries \<Rightarrow> world \<Rightarrow> hcl_block \<Rightarrow> string set \<Rightarrow> string set go_result" where
  "required_providers_body L W rpBlock usedProviders =
     (case Content [''source'', ''version''] (BlockBody rpBlock) of (rpAttributes, diags) \<Rightarrow>
        if HasErrors diags then Returned usedProviders
        else for_each (provider_body L W rpAttributes) rpAttributes usedProviders)"

text \<open>Lines 825 to 900, the body of the loop over the \<^verbatim>\<open>terraform\<close> blocks.\<close>

definition terraform_body ::
  "('v, 'c) libraries \<Rightarrow> world \<Rightarrow> hcl_block \<Rightarrow> string set \<Rightarrow> string set go_result" where
  "terraform_body L W block usedProviders =
     (case PartialContent ''required_providers'' (BlockBody block) of (blocks, diags) \<Rightarrow>
        if HasErrors diags then Returned usedProviders
        else for_each (required_providers_body L W)
               (OfType ''required_providers'' blocks) usedProviders)"

text \<open>Lines 803 to 901, the body of the loop over the \<^verbatim>\<open>.tf\<close> files.\<close>

definition file_body ::
  "('v, 'c) libraries \<Rightarrow> world \<Rightarrow> string \<Rightarrow> string set \<Rightarrow> string set go_result" where
  "file_body L W tfFile usedProviders =
     (case ParseHCLFile W tfFile of (fileContent, diags) \<Rightarrow>
        if HasErrors diags then Returned usedProviders
        else
          (case PartialContent ''terraform'' fileContent of (blocks, diags') \<Rightarrow>
             if HasErrors diags' then Returned usedProviders
             else for_each (terraform_body L W) (OfType ''terraform'' blocks) usedProviders))"

text \<open>Lines 788 to 902, the body of the loop over the environments.\<close>

definition env_body ::
  "('v, 'c) libraries \<Rightarrow> world \<Rightarrow> string \<Rightarrow> string \<Rightarrow> string set \<Rightarrow> string set go_result" where
  "env_body L W baseEnvDir env usedProviders =
     (let envConfigDir = filepath_Join [baseEnvDir, env, ''config'', env] in
      case filepath_Glob W envConfigDir ''*.tf'' of
        Inl err \<Rightarrow> Returned usedProviders
      | Inr tfFiles \<Rightarrow>
          if length tfFiles = 0 then Returned usedProviders
          else for_each (file_body L W) tfFiles usedProviders)"

definition collectUsedProviders ::
  "('v, 'c) libraries \<Rightarrow> world \<Rightarrow> string list \<Rightarrow> string
     \<Rightarrow> (string set \<times> error option) go_result" where
  "collectUsedProviders L W envs baseEnvDir =
     (case for_each (env_body L W baseEnvDir) envs {} of
        Panicked msg \<Rightarrow> Panicked msg
      | Returned usedProviders \<Rightarrow> Returned (usedProviders, None))"

section \<open>Pass B and the cleanup run\<close>

text \<open>
  \<open>cleanUnusedProviders\<close>, lines 696 to 781. It returns an error, or returns \<^verbatim>\<open>nil\<close>
  after one of three log lines (the two warnings that skip the cleanup, or the
  completion message), or it panics inside the collection. The result pairs that
  outcome with the cache as the function leaves it.
\<close>

datatype outcome =
    Failed error
  | SkippedNoEnvironments
  | SkippedNoProviders
  | Completed
  | Panic string

definition cleanUnusedProviders ::
  "('v, 'c) libraries \<Rightarrow> world \<Rightarrow> plugin_cache \<Rightarrow> string \<Rightarrow> outcome \<times> plugin_cache" where
  "cleanUnusedProviders L W pluginCache baseEnvDir =
     (case getEnvironments W baseEnvDir of
        Inl err \<Rightarrow> (Failed (ListEnvironmentsFailed err), pluginCache)
      | Inr envs \<Rightarrow>
          if length envs = 0 then (SkippedNoEnvironments, pluginCache)
          else
            (case collectUsedProviders L W envs baseEnvDir of
               Panicked msg \<Rightarrow> (Panic msg, pluginCache)
             | Returned (usedProviders, Some err) \<Rightarrow>
                 (Failed (CollectUsedProvidersFailed err), pluginCache)
             | Returned (usedProviders, None) \<Rightarrow>
                 if usedProviders = {} then (SkippedNoProviders, pluginCache)
                 else
                   (case unused_walk (unremovable pluginCache) usedProviders (tree pluginCache) of
                      (Some err, t) \<Rightarrow>
                        (Failed (CleanPluginCacheFailed err), pluginCache\<lparr>tree := t\<rparr>)
                    | (None, t) \<Rightarrow> (Completed, pluginCache\<lparr>tree := t\<rparr>))))"

text \<open>
  The \<^verbatim>\<open>cleanup\<close> command, lines 672 to 688: Pass A, and the process exits when it
  fails; otherwise Pass B, whose error is only reported. The command runs the two
  passes only after \<^verbatim>\<open>fileExists(pluginCacheDir)\<close> (lines 666 to 670, 2450 to 2456),
  which holds for a path that exists and is not a directory; that check is not part
  of the passes and is not modelled.
\<close>

datatype run_outcome = ExitedAfterDuplicates error | Finished outcome

definition reconcile ::
  "('v, 'c) libraries \<Rightarrow> world \<Rightarrow> string \<Rightarrow> plugin_cache \<Rightarrow> run_outcome \<times> plugin_cache" where
  "reconcile L W envPath pluginCache =
     (case cleanDuplicateProviders pluginCache of
        (Some err, c) \<Rightarrow> (ExitedAfterDuplicates err, c)
      | (None, c) \<Rightarrow>
          (case cleanUnusedProviders L W c envPath of (out, c') \<Rightarrow> (Finished out, c')))"

section \<open>A model of the libraries for running examples\<close>

text \<open>
  To run the functions on concrete inputs the library parameters need values. The
  model below covers plain dotted versions (an optional \<^verbatim>\<open>v\<close>, decimal segments
  separated by dots, padded with zeros to three segments) and constraints made of the
  comparison operators \<^verbatim>\<open>=\<close>, \<^verbatim>\<open>!=\<close>, \<^verbatim>\<open>>\<close>, \<^verbatim>\<open><\<close>, \<^verbatim>\<open>>=\<close>, \<^verbatim>\<open><=\<close>, separated by
  commas. Pre-release and build-metadata suffixes and the operator \<^verbatim>\<open>~>\<close> are outside
  the model: its parsers reject them, and no example uses them. Sorting is insertion
  sort, which is what \<^verbatim>\<open>sort.Sort\<close> runs on a slice of at most twelve elements.
\<close>

record plain_version =
  segments :: "int list"
  original :: string

definition ParseInt :: "string \<Rightarrow> int option" where
  "ParseInt s =
     (if s \<noteq> [] \<and> list_all (\<lambda>c. c \<in> set ''0123456789'') s then
        (let n = foldl (\<lambda>acc c. 10 * acc + (of_char c - 48)) (0::int) s in
         if n < 2 ^ 63 then Some n else None)
      else None)"

definition plain_NewVersion :: "string \<Rightarrow> error + plain_version" where
  "plain_NewVersion v =
     (case those (map ParseInt (Split (TrimPrefix v ''v'') ''.'')) of
        None \<Rightarrow> Inl (LibError (''Malformed version: '' @ v))
      | Some segs \<Rightarrow> Inr \<lparr>segments = segs @ replicate (3 - length segs) 0, original = v\<rparr>)"

fun compare_segments :: "int list \<Rightarrow> int list \<Rightarrow> int" where
  "compare_segments [] ys = (if list_all (\<lambda>y. y = 0) ys then 0 else - 1)"
| "compare_segments (x # xs) [] = (if list_all (\<lambda>z. z = 0) (x # xs) then 0 else 1)"
| "compare_segments (x # xs) (y # ys) =
     (if x < y then - 1 else if y < x then 1 else compare_segments xs ys)"

definition plain_Compare :: "plain_version \<Rightarrow> plain_version \<Rightarrow> int" where
  "plain_Compare v other = compare_segments (segments v) (segments other)"

datatype operator = OpEqual | OpNotEqual | OpGreater | OpLess | OpGreaterEqual | OpLessEqual

type_synonym plain_constraints = "(operator \<times> plain_version) list"

definition parse_operator :: "string \<Rightarrow> operator option" where
  "parse_operator s =
     (if s = [] \<or> s = ''='' then Some OpEqual
      else if s = ''!='' then Some OpNotEqual
      else if s = ''>'' then Some OpGreater
      else if s = ''<'' then Some OpLess
      else if s = ''>='' then Some OpGreaterEqual
      else if s = ''<='' then Some OpLessEqual
      else None)"

definition trim_blanks :: "string \<Rightarrow> string" where
  "trim_blanks s = rev (dropWhile (\<lambda>c. c = CHR '' '') (rev (dropWhile (\<lambda>c. c = CHR '' '') s)))"

definition parseSingle :: "string \<Rightarrow> error + operator \<times> plain_version" where
  "parseSingle v =
     (let t = trim_blanks v;
          opr = takeWhile (\<lambda>c. c \<in> set ''=!<>~'') t;
          ver = trim_blanks (drop (length opr) t) in
      case parse_operator opr of
        None \<Rightarrow> Inl (LibError (''Malformed constraint: '' @ v))
      | Some cop \<Rightarrow>
          (case plain_NewVersion ver of
             Inl err \<Rightarrow> Inl err
           | Inr chk \<Rightarrow> Inr (cop, chk)))"

fun parse_all :: "string list \<Rightarrow> error + plain_constraints" where
  "parse_all [] = Inr []"
| "parse_all (single # vs) =
     (case parseSingle single of
        Inl err \<Rightarrow> Inl err
      | Inr c \<Rightarrow> (case parse_all vs of Inl err \<Rightarrow> Inl err | Inr cs \<Rightarrow> Inr (c # cs)))"

definition plain_NewConstraint :: "string \<Rightarrow> error + plain_constraints" where
  "plain_NewConstraint v = parse_all (Split v '','')"

definition check_single :: "plain_version \<Rightarrow> operator \<times> plain_version \<Rightarrow> bool" where
  "check_single v c =
     (let r = plain_Compare v (snd c) in
      case fst c of
        OpEqual \<Rightarrow> r = 0
      | OpNotEqual \<Rightarrow> r \<noteq> 0
      | OpGreater \<Rightarrow> r = 1
      | OpLess \<Rightarrow> r = - 1
      | OpGreaterEqual \<Rightarrow> r \<ge> 0
      | OpLessEqual \<Rightarrow> r \<le> 0)"

definition plain_Check :: "plain_constraints \<Rightarrow> plain_version \<Rightarrow> bool" where
  "plain_Check cs v = list_all (check_single v) cs"

text \<open>
  Insertion sort as the standard library runs it: each element in turn is swapped
  towards the front while it is less than its left neighbour. \<open>sift\<close> works on the
  part sorted so far, held back to front.
\<close>

fun sift :: "('a \<Rightarrow> 'a \<Rightarrow> bool) \<Rightarrow> 'a \<Rightarrow> 'a list \<Rightarrow> 'a list" where
  "sift lt x [] = [x]"
| "sift lt x (y # ys) = (if lt x y then y # sift lt x ys else x # y # ys)"

definition insertionSort :: "('a \<Rightarrow> 'a \<Rightarrow> bool) \<Rightarrow> 'a list \<Rightarrow> 'a list" where
  "insertionSort lt xs = rev (foldl (\<lambda>done x. sift lt x done) [] xs)"

definition plain_libraries :: "(plain_version, plain_constraints) libraries" where
  "plain_libraries =
     \<lparr>NewVersion = plain_NewVersion,
      Original = original,
      LessThan = (\<lambda>v other. plain_Compare v other < 0),
      NewConstraint = plain_NewConstraint,
      Check = plain_Check,
      sort_Sort = insertionSort\<rparr>"

text \<open>
  An example world: the environments given, each with its \<^verbatim>\<open>.tf\<close> files, under the
  base directory \<^verbatim>\<open>/base\<close>; what the parser returns for each file; and a registry
  that lists the given versions for \<^verbatim>\<open>hashicorp/aws\<close> and answers 500 for every other
  address.
\<close>

definition example_world ::
  "(string \<times> string list) list \<Rightarrow> (string \<times> hcl_body \<times> diagnostics) list \<Rightarrow> string list
     \<Rightarrow> world" where
  "example_world envs files versions =
     \<lparr>os_ReadDir = (\<lambda>p. if p = filepath_Join [''/base'', ''config'']
                         then Inr (map (\<lambda>e. \<lparr>Name = fst e, IsDir = True\<rparr>) envs)
                         else Inl (OsError ''no such file or directory'')),
      filepath_Glob = (\<lambda>p pat.
                         case find (\<lambda>e. p = filepath_Join [''/base'', fst e, ''config'', fst e]) envs of
                           Some e \<Rightarrow> Inr (snd e)
                         | None \<Rightarrow> Inr []),
      ParseHCLFile = (\<lambda>f. case map_of files f of
                         Some r \<Rightarrow> r
                       | None \<Rightarrow> (Body [] [], [(DiagError, ''Failed to read file'')])),
      http_Get = (\<lambda>url. if url = ''https://registry.terraform.io/v1/providers/hashicorp/aws/versions''
                         then Inr \<lparr>StatusCode = 200, Decode = Inr versions\<rparr>
                         else Inr \<lparr>StatusCode = 500, Decode = Inl (LibError ''EOF'')\<rparr>)\<rparr>"

text \<open>
  A cache for the examples: the cache directory, two copies of the same \<^verbatim>\<open>aws\<close>
  3.74.0 artifact in two subdirectories, and one \<^verbatim>\<open>aws\<close> 3.70.0 artifact.
\<close>

definition example_cache :: plugin_cache where
  "example_cache =
     \<lparr>tree =
        [Visit ''/cache'' \<lparr>Name = ''cache'', IsDir = True\<rparr>,
         Visit ''/cache/a/terraform-provider-aws_v3.74.0_linux_amd64.zip''
           \<lparr>Name = ''terraform-provider-aws_v3.74.0_linux_amd64.zip'', IsDir = False\<rparr>,
         Visit ''/cache/b/terraform-provider-aws_v3.74.0_linux_amd64.zip''
           \<lparr>Name = ''terraform-provider-aws_v3.74.0_linux_amd64.zip'', IsDir = False\<rparr>,
         Visit ''/cache/terraform-provider-aws_v3.70.0_linux_amd64.zip''
           \<lparr>Name = ''terraform-provider-aws_v3.70.0_linux_amd64.zip'', IsDir = False\<rparr>],
      unremovable = {}\<rparr>"

text \<open>
  Configuration files with one \<^verbatim>\<open>terraform\<close> block that holds one
  \<^verbatim>\<open>required_providers\<close> block with the given attributes. \<open>well_known_shape\<close> is the
  shape of the comment at lines 843 to 849:
  \<^verbatim>\<open>
  terraform {
    required_providers {
      aws = {
        source  = "hashicorp/aws"
        version = ">= 3.74"
      }
    }
  }
  \<close>
  The inner block has one attribute \<^verbatim>\<open>aws\<close> whose value is an object. \<open>flat_shape\<close>
  has \<^verbatim>\<open>source\<close> and \<^verbatim>\<open>version\<close> as attributes of the \<^verbatim>\<open>required_providers\<close>
  block itself, and \<open>number_source\<close> is
  \<^verbatim>\<open>
  terraform {
    required_providers {
      source  = 1
      version = ">= 3.74"
    }
  }
  \<close>
\<close>

definition required_providers_file :: "(string \<times> expression) list \<Rightarrow> hcl_body" where
  "required_providers_file attrs =
     Body [] [Block ''terraform'' [] (Body [] [Block ''required_providers'' [] (Body attrs [])])]"

definition well_known_shape :: hcl_body where
  "well_known_shape =
     required_providers_file
       [(''aws'', Expression (ObjectVal [(''source'', StringVal ''hashicorp/aws''),
                                        (''version'', StringVal ''>= 3.74'')]) [])]"

definition flat_shape :: "string \<Rightarrow> string \<Rightarrow> hcl_body" where
  "flat_shape src ver =
     required_providers_file
       [(''source'', Expression (StringVal src) []), (''version'', Expression (StringVal ver) [])]"

definition number_source :: hcl_body where
  "number_source =
     required_providers_file
       [(''source'', Expression (NumberIntVal 1) []),
        (''version'', Expression (StringVal ''>= 3.74'') [])]"

text \<open>The world without a file: the listing of every directory leaves it out.\<close>

definition without_file :: "world \<Rightarrow> string \<Rightarrow> world" where
  "without_file W f =
     W\<lparr>filepath_Glob := (\<lambda>p pat. case filepath_Glob W p pat of
                                     Inl err \<Rightarrow> Inl err
                                   | Inr tfFiles \<Rightarrow> Inr (removeAll f tfFiles))\<rparr>"

text \<open>
  The versions and the constraint of the resolver example, as the model of the
  libraries parses them.
\<close>

definition example_versions :: "plain_version list" where
  "example_versions =
     [\<lparr>segments = [3, 9, 0], original = ''3.9.0''\<rparr>,
      \<lparr>segments = [4, 2, 0], original = ''4.2.0''\<rparr>,
      \<lparr>segments = [4, 5, 1], original = ''4.5.1''\<rparr>,
      \<lparr>segments = [5, 0, 0], original = ''5.0.0''\<rparr>]"

definition example_constraint :: plain_constraints where
  "example_constraint =
     [(OpGreaterEqual, \<lparr>segments = [4, 0, 0], original = ''4.0''\<rparr>),
      (OpLess, \<lparr>segments = [5, 0, 0], original = ''5.0''\<rparr>)]"

text \<open>
  Example worlds over these files; the registry lists \<^verbatim>\<open>aws\<close> 3.70.0 and 3.74.0.
  In \<open>malformed_world\<close> the environment \<^verbatim>\<open>dev\<close> has a file that does not parse next
  to a good one, and a second environment \<^verbatim>\<open>prod\<close> has a good file.
\<close>

definition well_known_world :: world where
  "well_known_world =
     example_world [(''dev'', [''main.tf''])]
       [(''main.tf'', well_known_shape, [])] [''3.70.0'', ''3.74.0'']"

definition flat_world :: world where
  "flat_world =
     example_world [(''dev'', [''main.tf''])]
       [(''main.tf'', flat_shape ''hashicorp/aws'' ''>= 3.74'', [])] [''3.70.0'', ''3.74.0'']"

definition number_world :: world where
  "number_world =
     example_world [(''dev'', [''main.tf''])]
       [(''main.tf'', number_source, [])] [''3.70.0'', ''3.74.0'']"

definition malformed_world :: world where
  "malformed_world =
     example_world [(''dev'', [''bad.tf'', ''main.tf'']), (''prod'', [''prod.tf''])]
       [(''bad.tf'', Body [] [], [(DiagError, ''Invalid block definition'')]),
        (''main.tf'', flat_shape ''hashicorp/aws'' ''>= 3.74'', []),
        (''prod.tf'', flat_shape ''hashicorp/aws'' ''< 3.74'', [])]
       [''3.70.0'', ''3.74.0'']"

section \<open>Notions used in the statements\<close>

text \<open>
  From the words of the specification, not from the code: ``parsing splits on the first
  \<^verbatim>\<open>_v\<close> to separate \<^verbatim>\<open><prefix>-<name>\<close> from \<^verbatim>\<open><version>_<os>_<arch>\<close>''.
  \<open>split_on_first s sep\<close> is what stands before and after the first occurrence of
  \<open>sep\<close> in \<open>s\<close>, and \<open>None\<close> when there is none.
\<close>

fun split_on_first :: "string \<Rightarrow> string \<Rightarrow> (string \<times> string) option" where
  "split_on_first [] sep = (if sep = [] then Some ([], []) else None)"
| "split_on_first (c # cs) sep =
     (if HasPrefix (c # cs) sep then Some ([], drop (length sep) (c # cs))
      else (case split_on_first cs sep of
              None \<Rightarrow> None
            | Some (before, after) \<Rightarrow> Some (c # before, after)))"

text \<open>
  The path of a visit, the keys the two passes compute for it (none for a directory
  or an error), and the files of a walk that have a given Pass A key.
\<close>

fun visit_path :: "visit \<Rightarrow> string" where
  "visit_path (Visit path info) = path"
| "visit_path (VisitErr path e) = path"

fun duplicate_key_of :: "visit \<Rightarrow> string option" where
  "duplicate_key_of (Visit path info) = (if IsDir info then None else duplicate_key (Name info))"
| "duplicate_key_of (VisitErr path e) = None"

fun unused_key_of :: "visit \<Rightarrow> string option" where
  "unused_key_of (Visit path info) = (if IsDir info then None else unused_key (Name info))"
| "unused_key_of (VisitErr path e) = None"

fun is_walk_error :: "visit \<Rightarrow> bool" where
  "is_walk_error (Visit path info) = False"
| "is_walk_error (VisitErr path e) = True"

definition artifacts_with_key :: "string \<Rightarrow> visit list \<Rightarrow> visit list" where
  "artifacts_with_key k vs = filter (\<lambda>v. duplicate_key_of v = Some k) vs"

text \<open>
  What \<^verbatim>\<open>sort.Sort\<close> asks of \<^verbatim>\<open>Less\<close> and what it promises. \<^verbatim>\<open>Less\<close> must be a
  strict weak ordering of the elements to sort: never both ways between two elements,
  and when \<open>a\<close> is less than \<open>c\<close>, every element \<open>b\<close> has \<open>a\<close> less than \<open>b\<close> or
  \<open>b\<close> less than \<open>c\<close>. Then the result is a permutation of the slice in which no
  element stands behind one that it is less than. Equal elements may come in any
  order, so the contract does not fix the function.
\<close>

definition strict_weak_order_on :: "'a set \<Rightarrow> ('a \<Rightarrow> 'a \<Rightarrow> bool) \<Rightarrow> bool" where
  "strict_weak_order_on A lt =
     ((\<forall>a\<in>A. \<forall>b\<in>A. lt a b \<longrightarrow> \<not> lt b a) \<and>
      (\<forall>a\<in>A. \<forall>b\<in>A. \<forall>c\<in>A. lt a c \<longrightarrow> lt a b \<or> lt b c))"

definition sort_contract :: "(('a \<Rightarrow> 'a \<Rightarrow> bool) \<Rightarrow> 'a list \<Rightarrow> 'a list) \<Rightarrow> bool" where
  "sort_contract srt =
     (\<forall>lt xs. strict_weak_order_on (set xs) lt \<longrightarrow>
        mset (srt lt xs) = mset xs \<and> sorted_wrt (\<lambda>a b. \<not> lt b a) (srt lt xs))"

text \<open>What the callback of Pass B leaves in place.\<close>

definition kept_by_unused :: "string set \<Rightarrow> string set \<Rightarrow> visit \<Rightarrow> bool" where
  "kept_by_unused locked used v =
     (case unused_key_of v of
        None \<Rightarrow> True
      | Some key \<Rightarrow> key \<in> used \<or> visit_path v \<in> locked)"

text \<open>
  Two more caches. In \<open>platforms_cache\<close> the same \<^verbatim>\<open>aws\<close> 3.74.0 is there for two
  platforms, and a second copy of the first one cannot be removed. In \<open>two_v_cache\<close>
  the same file, whose name has \<^verbatim>\<open>_v\<close> twice, lies in two directories.
\<close>

definition platforms_cache :: plugin_cache where
  "platforms_cache =
     \<lparr>tree =
        [Visit ''/cache'' \<lparr>Name = ''cache'', IsDir = True\<rparr>,
         Visit ''/cache/a/terraform-provider-aws_v3.74.0_linux_amd64.zip''
           \<lparr>Name = ''terraform-provider-aws_v3.74.0_linux_amd64.zip'', IsDir = False\<rparr>,
         Visit ''/cache/b/terraform-provider-aws_v3.74.0_darwin_arm64.zip''
           \<lparr>Name = ''terraform-provider-aws_v3.74.0_darwin_arm64.zip'', IsDir = False\<rparr>,
         Visit ''/cache/c/terraform-provider-aws_v3.74.0_linux_amd64.zip''
           \<lparr>Name = ''terraform-provider-aws_v3.74.0_linux_amd64.zip'', IsDir = False\<rparr>],
      unremovable = {''/cache/c/terraform-provider-aws_v3.74.0_linux_amd64.zip''}\<rparr>"

definition two_v_cache :: plugin_cache where
  "two_v_cache =
     \<lparr>tree =
        [Visit ''/cache/a/terraform-provider-aws_v3.74.0_linux_amd64_v1''
           \<lparr>Name = ''terraform-provider-aws_v3.74.0_linux_amd64_v1'', IsDir = False\<rparr>,
         Visit ''/cache/b/terraform-provider-aws_v3.74.0_linux_amd64_v1''
           \<lparr>Name = ''terraform-provider-aws_v3.74.0_linux_amd64_v1'', IsDir = False\<rparr>],
      unremovable = {}\<rparr>"

section \<open>Properties\<close>

subsection \<open>Used-set collection returns no error\<close>

lemma collect_nil_error:
  "collectUsedProviders L W envs baseEnvDir = Returned (used, e) \<Longrightarrow> e = None"
  by (auto simp: collectUsedProviders_def split: go_result.splits)

subsection \<open>Enumeration failure\<close>

text \<open>
  C7. When the \<^verbatim>\<open>config\<close> directory under the base directory cannot be read,
  \<open>getEnvironments\<close> fails with an error, and \<open>cleanUnusedProviders\<close> returns that error
  (wrapped) with the cache exactly as it was: no file is removed, and the failure is
  not taken for an empty list of environments.
\<close>

theorem enumeration_failure_aborts_unused_removal:
  assumes "os_ReadDir W (filepath_Join [baseEnvDir, ''config'']) = Inl err"
  shows "getEnvironments W baseEnvDir = Inl (ReadConfigDirFailed err) \<and>
         cleanUnusedProviders L W pluginCache baseEnvDir =
           (Failed (ListEnvironmentsFailed (ReadConfigDirFailed err)), pluginCache)"
  using assms by (simp add: getEnvironments_def cleanUnusedProviders_def)

theorem enumeration_failure_witness:
  "os_ReadDir (example_world [] [] []) (filepath_Join [''/missing'', ''config''])
     = Inl (OsError ''no such file or directory'') \<and>
   cleanUnusedProviders plain_libraries (example_world [] [] []) example_cache ''/missing''
     = (Failed (ListEnvironmentsFailed
                  (ReadConfigDirFailed (OsError ''no such file or directory''))),
        example_cache)"
proof -
  have h: "os_ReadDir (example_world [] [] []) (filepath_Join [''/missing'', ''config''])
     = Inl (OsError ''no such file or directory'')"
    by (simp add: example_world_def)
  show ?thesis
    using h enumeration_failure_aborts_unused_removal [OF h, of plain_libraries example_cache]
    by simp
qed

subsection \<open>Empty used set\<close>

text \<open>
  C2. When the environments are enumerated and the used set is empty, because there
  is no environment or because the collection over the environments returns the empty
  set, \<open>cleanUnusedProviders\<close> returns right after its warning and leaves the cache as
  it was: Pass B removes no file.
\<close>

theorem empty_used_set_removes_nothing:
  assumes "getEnvironments W baseEnvDir = Inr envs"
    and "envs = [] \<or> collectUsedProviders L W envs baseEnvDir = Returned ({}, e)"
  shows "cleanUnusedProviders L W pluginCache baseEnvDir =
           (if envs = [] then SkippedNoEnvironments else SkippedNoProviders, pluginCache)"
proof (cases "envs = []")
  case True
  with assms(1) show ?thesis by (simp add: cleanUnusedProviders_def)
next
  case False
  with assms(2) have c: "collectUsedProviders L W envs baseEnvDir = Returned ({}, e)" by simp
  then have "e = None" by (rule collect_nil_error)
  with c False assms(1) show ?thesis by (simp add: cleanUnusedProviders_def)
qed

theorem empty_used_set_witness:
  "getEnvironments well_known_world ''/base'' = Inr [''dev''] \<and>
   collectUsedProviders plain_libraries well_known_world [''dev''] ''/base''
     = Returned ({}, None) \<and>
   cleanUnusedProviders plain_libraries well_known_world example_cache ''/base''
     = (SkippedNoProviders, example_cache)"
proof -
  have h1: "getEnvironments well_known_world ''/base'' = Inr [''dev'']"
    by code_simp
  have h2: "collectUsedProviders plain_libraries well_known_world [''dev''] ''/base''
              = Returned ({}, None)"
    by code_simp
  show ?thesis
    using h1 h2
      empty_used_set_removes_nothing [OF h1, of plain_libraries None example_cache]
    by simp
qed

subsection \<open>Version resolution\<close>

lemma find_first_of_sorted:
  assumes f: "find P xs = Some v"
    and s: "sorted_wrt R xs"
    and u: "u \<in> set xs" "P u"
  shows "u = v \<or> R v u"
proof -
  from f obtain i where i: "i < length xs" "P (xs ! i)" "v = xs ! i" "\<forall>j<i. \<not> P (xs ! j)"
    unfolding find_Some_iff by blast
  from u(1) obtain k where k: "k < length xs" "u = xs ! k"
    by (auto simp: in_set_conv_nth)
  with u(2) i(4) have "\<not> k < i" by auto
  then consider "k = i" | "i < k" by linarith
  then show ?thesis
  proof cases
    case 1
    with i(3) k(2) show ?thesis by simp
  next
    case 2
    with s k(1) have "R (xs ! i) (xs ! k)"
      by (simp add: sorted_wrt_iff_nth_less)
    with i(3) k(2) show ?thesis by simp
  qed
qed

lemma resolve_unfold:
  assumes "getProviderAvailableVersions L W source = Inr vs"
    and "NewConstraint L constraint = Inr c"
  shows "resolveProviderVersion L W source constraint =
           (case find (Check L c) (sort_Reverse L vs) of
              Some v \<Rightarrow> Inr (Original L v)
            | None \<Rightarrow> Inl (NoMatchingVersion source constraint))"
  using assms by (simp add: resolveProviderVersion_def)

lemma strict_weak_order_on_converse:
  "strict_weak_order_on A lt \<Longrightarrow> strict_weak_order_on A (\<lambda>a b. lt b a)"
  unfolding strict_weak_order_on_def by blast

text \<open>
  Line 933 sorts: under the contract of \<^verbatim>\<open>sort.Sort\<close>, the slice after
  \<^verbatim>\<open>sort.Sort(sort.Reverse(...))\<close> is a permutation of the versions with no version
  before a greater one.
\<close>

lemma sort_Reverse_descending:
  assumes "sort_contract (sort_Sort L)" and "strict_weak_order_on (set vs) (LessThan L)"
  shows "mset (sort_Reverse L vs) = mset vs
       \<and> sorted_wrt (\<lambda>a b. \<not> LessThan L a b) (sort_Reverse L vs)"
proof -
  from assms(2) have "strict_weak_order_on (set vs) (\<lambda>a b. LessThan L b a)"
    by (rule strict_weak_order_on_converse)
  with assms(1) show ?thesis
    unfolding sort_contract_def sort_Reverse_def by blast
qed

text \<open>The insertion sort of the example libraries keeps the contract.\<close>

lemma sift_mset: "mset (sift lt x ys) = add_mset x (mset ys)"
  by (induction ys) auto

lemma sift_sorted:
  assumes "strict_weak_order_on A lt" and "x \<in> A" and "set ys \<subseteq> A"
    and "sorted_wrt (\<lambda>a b. \<not> lt a b) ys"
  shows "sorted_wrt (\<lambda>a b. \<not> lt a b) (sift lt x ys)"
  using assms(3,4)
proof (induction ys)
  case Nil
  then show ?case by simp
next
  case (Cons y ys)
  have set_sift: "set (sift lt x ys) = insert x (set ys)"
    using sift_mset [of lt x ys] by (metis set_mset_add_mset_insert set_mset_mset)
  show ?case
  proof (cases "lt x y")
    case True
    from Cons.prems assms(1,2) True have "\<not> lt y x"
      unfolding strict_weak_order_on_def by auto
    with Cons True set_sift show ?thesis by auto
  next
    case False
    have "\<forall>z\<in>set ys. \<not> lt x z"
    proof
      fix z assume z: "z \<in> set ys"
      with Cons.prems have "\<not> lt y z" by simp
      with False z Cons.prems(1) assms(1,2) show "\<not> lt x z"
        unfolding strict_weak_order_on_def by (metis insert_subset list.simps(15) subsetD)
    qed
    with Cons.prems False show ?thesis by simp
  qed
qed

lemma foldl_sift:
  assumes "strict_weak_order_on A lt"
  shows "set xs \<subseteq> A \<Longrightarrow> set acc \<subseteq> A \<Longrightarrow> sorted_wrt (\<lambda>a b. \<not> lt a b) acc \<Longrightarrow>
         mset (foldl (\<lambda>d x. sift lt x d) acc xs) = mset acc + mset xs
         \<and> sorted_wrt (\<lambda>a b. \<not> lt a b) (foldl (\<lambda>d x. sift lt x d) acc xs)"
proof (induction xs arbitrary: acc)
  case Nil
  then show ?case by simp
next
  case (Cons x xs)
  from Cons.prems have x: "x \<in> A" and xs: "set xs \<subseteq> A" by simp_all
  have s: "sorted_wrt (\<lambda>a b. \<not> lt a b) (sift lt x acc)"
    by (rule sift_sorted [OF assms x Cons.prems(2,3)])
  have "set (sift lt x acc) = insert x (set acc)"
    using sift_mset [of lt x acc] by (metis set_mset_add_mset_insert set_mset_mset)
  with x Cons.prems(2) have sub: "set (sift lt x acc) \<subseteq> A" by simp
  from Cons.IH [OF xs sub s] show ?case by (simp add: sift_mset)
qed

lemma insertionSort_contract: "sort_contract insertionSort"
  unfolding sort_contract_def
proof (intro allI impI)
  fix lt :: "'a \<Rightarrow> 'a \<Rightarrow> bool" and xs
  assume "strict_weak_order_on (set xs) lt"
  from foldl_sift [OF this, of xs "[]"]
  show "mset (insertionSort lt xs) = mset xs
      \<and> sorted_wrt (\<lambda>a b. \<not> lt b a) (insertionSort lt xs)"
    by (simp add: insertionSort_def sorted_wrt_rev)
qed

text \<open>
  C4. Let the registry give the valid versions \<open>vs\<close> for the source and let the
  constraint parse to \<open>c\<close>; let \<^verbatim>\<open>sort.Sort\<close> keep its contract and let \<open>LessThan\<close> be a
  strict weak ordering of these versions. Then the slice that \<open>resolveProviderVersion\<close>
  sorts at line 933 is a permutation of the versions in descending order, and the
  function returns the original string of the first version of that slice that passes
  the check. When some version passes, the one returned passes and no other passing
  version is greater; when none passes, the result is the error \<open>NoMatchingVersion\<close>.
  With the versions 3.9.0, 4.2.0, 4.5.1, 5.0.0 and the constraint \<^verbatim>\<open>>= 4.0, < 5.0\<close>
  the result is \<^verbatim>\<open>4.5.1\<close>.
\<close>

theorem resolve_returns_latest_satisfying:
  assumes avail: "getProviderAvailableVersions L W source = Inr vs"
    and con: "NewConstraint L constraint = Inr c"
    and contract: "sort_contract (sort_Sort L)"
    and order: "strict_weak_order_on (set vs) (LessThan L)"
  shows "mset (sort_Reverse L vs) = mset vs
       \<and> sorted_wrt (\<lambda>a b. \<not> LessThan L a b) (sort_Reverse L vs)
       \<and> resolveProviderVersion L W source constraint =
           (case find (Check L c) (sort_Reverse L vs) of
              Some v \<Rightarrow> Inr (Original L v)
            | None \<Rightarrow> Inl (NoMatchingVersion source constraint))
       \<and> ((\<exists>v\<in>set vs. Check L c v) \<longrightarrow>
            (\<exists>v\<in>set vs. Check L c v
               \<and> resolveProviderVersion L W source constraint = Inr (Original L v)
               \<and> (\<forall>u\<in>set vs. Check L c u \<longrightarrow> u = v \<or> \<not> LessThan L v u)))
       \<and> ((\<forall>v\<in>set vs. \<not> Check L c v) \<longrightarrow>
            resolveProviderVersion L W source constraint
              = Inl (NoMatchingVersion source constraint))
       \<and> resolveProviderVersion plain_libraries
            (example_world [] [] [''3.9.0'', ''4.2.0'', ''4.5.1'', ''5.0.0''])
            ''hashicorp/aws'' ''>= 4.0, < 5.0'' = Inr ''4.5.1''"
proof -
  from sort_Reverse_descending [OF contract order]
  have m: "mset (sort_Reverse L vs) = mset vs"
    and desc: "sorted_wrt (\<lambda>a b. \<not> LessThan L a b) (sort_Reverse L vs)"
    by simp_all
  from m have perm: "set (sort_Reverse L vs) = set vs"
    by (rule mset_eq_setD)
  have r: "resolveProviderVersion L W source constraint =
           (case find (Check L c) (sort_Reverse L vs) of
              Some v \<Rightarrow> Inr (Original L v)
            | None \<Rightarrow> Inl (NoMatchingVersion source constraint))"
    by (rule resolve_unfold [OF avail con])
  have some: "(\<exists>v\<in>set vs. Check L c v) \<longrightarrow>
            (\<exists>v\<in>set vs. Check L c v
               \<and> resolveProviderVersion L W source constraint = Inr (Original L v)
               \<and> (\<forall>u\<in>set vs. Check L c u \<longrightarrow> u = v \<or> \<not> LessThan L v u))"
  proof
    assume "\<exists>v\<in>set vs. Check L c v"
    with perm have "find (Check L c) (sort_Reverse L vs) \<noteq> None"
      by (auto simp: find_None_iff)
    then obtain v where v: "find (Check L c) (sort_Reverse L vs) = Some v" by blast
    then have "v \<in> set (sort_Reverse L vs)" "Check L c v"
      by (auto simp: find_Some_iff)
    moreover have "resolveProviderVersion L W source constraint = Inr (Original L v)"
      using r v by simp
    moreover have "\<forall>u\<in>set vs. Check L c u \<longrightarrow> u = v \<or> \<not> LessThan L v u"
      using find_first_of_sorted [OF v desc] perm by blast
    ultimately show "\<exists>v\<in>set vs. Check L c v
               \<and> resolveProviderVersion L W source constraint = Inr (Original L v)
               \<and> (\<forall>u\<in>set vs. Check L c u \<longrightarrow> u = v \<or> \<not> LessThan L v u)"
      using perm by blast
  qed
  have none: "(\<forall>v\<in>set vs. \<not> Check L c v) \<longrightarrow>
            resolveProviderVersion L W source constraint
              = Inl (NoMatchingVersion source constraint)"
  proof
    assume "\<forall>v\<in>set vs. \<not> Check L c v"
    with perm have "find (Check L c) (sort_Reverse L vs) = None"
      by (auto simp: find_None_iff)
    then show "resolveProviderVersion L W source constraint
               = Inl (NoMatchingVersion source constraint)"
      using r by simp
  qed
  have ex: "resolveProviderVersion plain_libraries
            (example_world [] [] [''3.9.0'', ''4.2.0'', ''4.5.1'', ''5.0.0''])
            ''hashicorp/aws'' ''>= 4.0, < 5.0'' = Inr ''4.5.1''"
    by code_simp
  from m desc r some none ex show ?thesis by blast
qed

theorem resolve_latest_witness:
  "getProviderAvailableVersions plain_libraries
     (example_world [] [] [''3.9.0'', ''4.2.0'', ''4.5.1'', ''5.0.0'']) ''hashicorp/aws''
     = Inr example_versions
   \<and> NewConstraint plain_libraries ''>= 4.0, < 5.0'' = Inr example_constraint
   \<and> sort_contract (sort_Sort plain_libraries)
   \<and> strict_weak_order_on (set example_versions) (LessThan plain_libraries)
   \<and> map original (sort_Reverse plain_libraries example_versions)
       = [''5.0.0'', ''4.5.1'', ''4.2.0'', ''3.9.0'']
   \<and> sorted_wrt (\<lambda>a b. \<not> LessThan plain_libraries a b)
        (sort_Reverse plain_libraries example_versions)
   \<and> (\<exists>v\<in>set example_versions. Check plain_libraries example_constraint v
         \<and> resolveProviderVersion plain_libraries
              (example_world [] [] [''3.9.0'', ''4.2.0'', ''4.5.1'', ''5.0.0''])
              ''hashicorp/aws'' ''>= 4.0, < 5.0'' = Inr (Original plain_libraries v)
         \<and> (\<forall>u\<in>set example_versions. Check plain_libraries example_constraint u
               \<longrightarrow> u = v \<or> \<not> LessThan plain_libraries v u))"
proof -
  let ?W = "example_world [] [] [''3.9.0'', ''4.2.0'', ''4.5.1'', ''5.0.0'']"
  have h1: "getProviderAvailableVersions plain_libraries ?W ''hashicorp/aws''
              = Inr example_versions"
    by code_simp
  have h2: "NewConstraint plain_libraries ''>= 4.0, < 5.0'' = Inr example_constraint"
    by code_simp
  have h3: "sort_contract (sort_Sort plain_libraries)"
    by (simp add: plain_libraries_def insertionSort_contract)
  have h4: "strict_weak_order_on (set example_versions) (LessThan plain_libraries)"
    by code_simp
  have h5: "\<exists>v\<in>set example_versions. Check plain_libraries example_constraint v"
    by code_simp
  have h6: "map original (sort_Reverse plain_libraries example_versions)
              = [''5.0.0'', ''4.5.1'', ''4.2.0'', ''3.9.0'']"
    by code_simp
  show ?thesis
    using h1 h2 h3 h4 h5 h6 resolve_returns_latest_satisfying [OF h1 h2 h3 h4] by blast
qed

subsection \<open>A file that does not parse\<close>

lemma http_Get_without_file: "http_Get (without_file W f) = http_Get W"
  by (simp add: without_file_def)

lemma ParseHCLFile_without_file: "ParseHCLFile (without_file W f) = ParseHCLFile W"
  by (simp add: without_file_def)

lemma resolve_without_file:
  "resolveProviderVersion L (without_file W f) = resolveProviderVersion L W"
  unfolding resolveProviderVersion_def getProviderAvailableVersions_def http_Get_without_file ..

lemma provider_body_without_file:
  "provider_body L (without_file W f) = provider_body L W"
  unfolding provider_body_def resolve_without_file ..

lemma required_providers_body_without_file:
  "required_providers_body L (without_file W f) = required_providers_body L W"
  unfolding required_providers_body_def provider_body_without_file ..

lemma terraform_body_without_file:
  "terraform_body L (without_file W f) = terraform_body L W"
  unfolding terraform_body_def required_providers_body_without_file ..

lemma file_body_without_file:
  "file_body L (without_file W f) = file_body L W"
  unfolding file_body_def terraform_body_without_file ParseHCLFile_without_file ..

lemma file_body_parse_failure:
  "HasErrors (snd (ParseHCLFile W f)) \<Longrightarrow> file_body L W f used = Returned used"
  by (cases "ParseHCLFile W f") (simp add: file_body_def)

lemma for_each_skip:
  assumes "\<And>s. body f s = Returned s"
  shows "for_each body (removeAll f xs) s = for_each body xs s"
  using assms by (induction xs arbitrary: s) (auto split: go_result.splits)

lemma for_each_skip_append:
  assumes "\<And>s. body f s = Returned s"
  shows "for_each body (xs @ f # ys) s = for_each body (xs @ ys) s"
  using assms by (induction xs arbitrary: s) (auto split: go_result.splits)

lemma for_each_cong_body:
  assumes "\<And>x s. body x s = body' x s"
  shows "for_each body xs s = for_each body' xs s"
  using assms by (induction xs arbitrary: s) (auto split: go_result.splits)

lemma env_body_without_file:
  assumes "HasErrors (snd (ParseHCLFile W f))"
  shows "env_body L (without_file W f) baseEnvDir env used = env_body L W baseEnvDir env used"
proof (cases "filepath_Glob W (filepath_Join [baseEnvDir, env, ''config'', env]) ''*.tf''")
  case (Inl err)
  then show ?thesis by (simp add: env_body_def without_file_def)
next
  case (Inr tfFiles)
  have skip: "for_each (file_body L W) (removeAll f tfFiles) used
                = for_each (file_body L W) tfFiles used"
    by (rule for_each_skip) (rule file_body_parse_failure [OF assms])
  have glob: "filepath_Glob (without_file W f)
                (filepath_Join [baseEnvDir, env, ''config'', env]) ''*.tf''
              = Inr (removeAll f tfFiles)"
    using Inr by (simp add: without_file_def)
  show ?thesis
  proof (cases "removeAll f tfFiles = []")
    case True
    with skip have "for_each (file_body L W) tfFiles used = Returned used" by simp
    with True Inr glob show ?thesis
      by (simp add: env_body_def file_body_without_file)
  next
    case False
    then have "tfFiles \<noteq> []" by auto
    with False Inr glob skip show ?thesis
      by (simp add: env_body_def file_body_without_file)
  qed
qed

text \<open>
  C8. When the parser reports errors for a file, the body of the file loop returns
  the used set unchanged; the loop over the files of the environment gives what it
  gives without that file; and the collection over all environments returns what it
  returns in the world where no directory lists that file. So the requirements of
  the other files, of this environment and of every other one, are resolved and
  added as if the malformed file were not there.
\<close>

theorem malformed_file_is_skipped:
  assumes "HasErrors (snd (ParseHCLFile W f))"
  shows "file_body L W f used = Returned used
       \<and> for_each (file_body L W) (before @ f # after) used
           = for_each (file_body L W) (before @ after) used
       \<and> collectUsedProviders L W envs baseEnvDir
           = collectUsedProviders L (without_file W f) envs baseEnvDir"
proof (intro conjI)
  show "file_body L W f used = Returned used"
    by (rule file_body_parse_failure [OF assms])
  show "for_each (file_body L W) (before @ f # after) used
           = for_each (file_body L W) (before @ after) used"
    by (rule for_each_skip_append) (rule file_body_parse_failure [OF assms])
  have "for_each (env_body L W baseEnvDir) envs {}
          = for_each (env_body L (without_file W f) baseEnvDir) envs {}"
    by (rule for_each_cong_body) (simp add: env_body_without_file [OF assms])
  then show "collectUsedProviders L W envs baseEnvDir
           = collectUsedProviders L (without_file W f) envs baseEnvDir"
    by (simp add: collectUsedProviders_def)
qed

theorem malformed_file_witness:
  "HasErrors (snd (ParseHCLFile malformed_world ''bad.tf''))
   \<and> collectUsedProviders plain_libraries malformed_world [''dev'', ''prod''] ''/base''
       = Returned ({''aws_3.74.0'', ''aws_3.70.0''}, None)
   \<and> collectUsedProviders plain_libraries (without_file malformed_world ''bad.tf'')
         [''dev'', ''prod''] ''/base''
       = Returned ({''aws_3.74.0'', ''aws_3.70.0''}, None)"
proof -
  have h: "HasErrors (snd (ParseHCLFile malformed_world ''bad.tf''))"
    by code_simp
  have r: "collectUsedProviders plain_libraries malformed_world [''dev'', ''prod''] ''/base''
             = Returned ({''aws_3.74.0'', ''aws_3.70.0''}, None)"
    by code_simp
  show ?thesis
    using h r malformed_file_is_skipped
                [OF h, of plain_libraries "{}" "[]" "[]" "[''dev'', ''prod'']" "''/base''"]
    by simp
qed

subsection \<open>The documented block shape\<close>

text \<open>
  A \<^verbatim>\<open>required_providers\<close> block with an attribute other than \<^verbatim>\<open>source\<close> and
  \<^verbatim>\<open>version\<close> is rejected by \<open>Content\<close> and contributes nothing.
\<close>

lemma unexpected_attribute_skips_block:
  assumes "(label, e) \<in> set (Attributes (BlockBody rpBlock))"
    and "label \<noteq> ''source''" "label \<noteq> ''version''"
  shows "required_providers_body L W rpBlock used = Returned used"
proof -
  have "(DiagError, ''Unsupported argument'')
          \<in> set (snd (Content [''source'', ''version''] (BlockBody rpBlock)))"
    using assms by (force simp: Content_def)
  then have "HasErrors (snd (Content [''source'', ''version''] (BlockBody rpBlock)))"
    by (force simp: HasErrors_def)
  then show ?thesis
    by (cases "Content [''source'', ''version''] (BlockBody rpBlock)")
       (simp add: required_providers_body_def)
qed

text \<open>
  C5. The claim is that a provider declared in the documented shape,
  \<^verbatim>\<open>
  terraform {
    required_providers {
      aws = {
        source  = "hashicorp/aws"
        version = ">= 3.74"
      }
    }
  }
  \<close>
  is extracted and contributes to the used set. On that file the collection returns
  the empty set: the schema handed to \<open>Content\<close> allows only \<^verbatim>\<open>source\<close> and
  \<^verbatim>\<open>version\<close>, so the attribute \<^verbatim>\<open>aws\<close> is an error and the block is skipped. The same
  requirement written as attributes of the block itself is resolved, to 3.74.0.
\<close>

theorem well_known_shape_contributes_nothing:
  "collectUsedProviders plain_libraries well_known_world [''dev''] ''/base''
     = Returned ({}, None)
   \<and> collectUsedProviders plain_libraries flat_world [''dev''] ''/base''
     = Returned ({''aws_3.74.0''}, None)"
  by code_simp

subsection \<open>A value that is not a string\<close>

text \<open>
  C10. The claim is that the collection always returns, with a nil error, and can
  never abort the run. It never returns an error (\<open>collect_nil_error\<close>), but on
  \<^verbatim>\<open>
  terraform {
    required_providers {
      source  = 1
      version = ">= 3.74"
    }
  }
  \<close>
  the call of \<^verbatim>\<open>AsString\<close> on the number panics: the collection does not return and
  the run ends in the panic.
\<close>

theorem collection_panics_on_number:
  "collectUsedProviders plain_libraries number_world [''dev''] ''/base''
     = Panicked ''not a string''
   \<and> fst (reconcile plain_libraries number_world ''/base'' example_cache)
     = Finished (Panic ''not a string'')"
  by code_simp

subsection \<open>Splitting file names\<close>

lemma split_from_first:
  "sep \<noteq> [] \<Longrightarrow>
   split_from sep cur s =
     (case split_on_first s sep of
        None \<Rightarrow> [cur @ s]
      | Some (a, b) \<Rightarrow> (cur @ a) # split_from sep [] b)"
proof (induction s arbitrary: cur)
  case Nil
  then show ?case by simp
next
  case (Cons c cs)
  show ?case
  proof (cases "HasPrefix (c # cs) sep")
    case True
    with Cons.prems show ?thesis by simp
  next
    case False
    with Cons.prems Cons.IH [of "cur @ [c]"] show ?thesis
      by (simp split: option.splits)
  qed
qed

lemma Split_first:
  "sep \<noteq> [] \<Longrightarrow>
   Split s sep = (case split_on_first s sep of None \<Rightarrow> [s] | Some (a, b) \<Rightarrow> a # Split b sep)"
  using split_from_first [of sep "[]" s] by (simp add: Split_def split: option.splits)

lemma Split_not_Nil: "sep \<noteq> [] \<Longrightarrow> Split s sep \<noteq> []"
  by (simp add: Split_first split: option.splits)

lemma Split_two_parts:
  assumes "sep \<noteq> []"
  shows "length (Split s sep) = 2 \<longleftrightarrow>
           (\<exists>a b. split_on_first s sep = Some (a, b) \<and> split_on_first b sep = None)"
proof (cases "split_on_first s sep")
  case None
  with assms show ?thesis by (simp add: Split_first)
next
  case (Some ab)
  obtain a b where ab: "ab = (a, b)" by (cases ab)
  show ?thesis
  proof (cases "split_on_first b sep")
    case None
    with Some ab assms show ?thesis by (simp add: Split_first [of sep s] Split_first [of sep b])
  next
    case (Some cd)
    obtain c d where "cd = (c, d)" by (cases cd)
    with Some \<open>split_on_first s sep = Some ab\<close> ab assms Split_not_Nil [of sep d] show ?thesis
      by (simp add: Split_first [of sep s] Split_first [of sep b])
  qed
qed

lemma split_on_first_append: "split_on_first s sep = Some (a, b) \<Longrightarrow> s = a @ sep @ b"
proof (induction s arbitrary: a)
  case Nil
  then show ?case by (simp split: if_splits)
next
  case (Cons c cs)
  show ?case
  proof (cases "HasPrefix (c # cs) sep")
    case True
    with Cons.prems have "a = []" "b = drop (length sep) (c # cs)" by simp_all
    moreover from True have "c # cs = sep @ drop (length sep) (c # cs)"
      unfolding HasPrefix_def by (metis append_take_drop_id)
    ultimately show ?thesis by simp
  next
    case False
    with Cons.prems obtain a' where "split_on_first cs sep = Some (a', b)" "a = c # a'"
      by (auto split: option.splits)
    with Cons.IH [of a'] show ?thesis by simp
  qed
qed

lemma duplicate_key_first:
  "duplicate_key filename =
     (if HasPrefix filename ''terraform-provider-'' then
        (case split_on_first filename ''_v'' of
           None \<Rightarrow> None
         | Some (a, b) \<Rightarrow>
             (case split_on_first b ''_v'' of
                None \<Rightarrow> Some (TrimPrefix a ''terraform-provider-'' @ ''_'' @ TrimSuffix b ''.zip'')
              | Some r \<Rightarrow> None))
      else None)"
proof (cases "split_on_first filename ''_v''")
  case None
  then show ?thesis by (simp add: duplicate_key_def Split_first)
next
  case (Some ab)
  obtain a b where ab: "ab = (a, b)" by (cases ab)
  show ?thesis
  proof (cases "split_on_first b ''_v''")
    case None
    with Some ab show ?thesis
      by (simp add: duplicate_key_def Split_first [of "''_v''" filename] Split_first [of "''_v''" b])
  next
    case (Some cd)
    obtain c d where "cd = (c, d)" by (cases cd)
    with Some \<open>split_on_first filename ''_v'' = Some ab\<close> ab Split_not_Nil [of "''_v''" d] show ?thesis
      by (simp add: duplicate_key_def Split_first [of "''_v''" filename] Split_first [of "''_v''" b])
  qed
qed

lemma Split_first_two:
  assumes "sep \<noteq> []" and "split_on_first s sep = Some (a, r)"
  shows "2 \<le> length (Split s sep) \<and> Split s sep ! 0 = a
         \<and> Split s sep ! 1 = (case split_on_first r sep of None \<Rightarrow> r | Some (b, rest) \<Rightarrow> b)"
  using assms Split_not_Nil [of sep r]
  by (cases "Split r sep")
     (auto simp add: Split_first [of sep s] Split_first [of sep r] split: option.splits)

lemma unused_key_first:
  "unused_key filename =
     (if HasPrefix filename ''terraform-provider-'' then
        (case split_on_first (TrimSuffix filename (filepath_Ext filename)) ''_'' of
           None \<Rightarrow> None
         | Some (a, r) \<Rightarrow>
             Some (TrimPrefix a ''terraform-provider-'' @ ''_''
                   @ TrimPrefix (case split_on_first r ''_'' of None \<Rightarrow> r | Some (b, rest) \<Rightarrow> b) ''v''))
      else None)"
proof (cases "split_on_first (TrimSuffix filename (filepath_Ext filename)) ''_''")
  case None
  then show ?thesis by (simp add: unused_key_def Split_first)
next
  case (Some ar)
  obtain a r where "ar = (a, r)" by (cases ar)
  with Some Split_first_two [of "''_''" "TrimSuffix filename (filepath_Ext filename)" a r]
  show ?thesis
    by (simp add: unused_key_def Let_def)
qed

text \<open>
  C9, as amended. Pass A splits the file name at every \<^verbatim>\<open>_v\<close> and goes on only
  with exactly two parts: a name has a key when \<^verbatim>\<open>_v\<close> occurs in it exactly once, and
  then the two parts are what stands before and after that occurrence; a name with
  \<^verbatim>\<open>_v\<close> more than once has no key and the file is passed over. Pass B does not look
  for \<^verbatim>\<open>_v\<close>: it cuts the extension off, splits at every underscore, and takes what
  stands before the first underscore as \<^verbatim>\<open><prefix>-<name>\<close> and what stands between
  the first and the second, without a leading \<^verbatim>\<open>v\<close>, as the version.
\<close>

theorem file_name_keys_by_first_split:
  "duplicate_key filename =
     (if HasPrefix filename ''terraform-provider-'' then
        (case split_on_first filename ''_v'' of
           None \<Rightarrow> None
         | Some (a, b) \<Rightarrow>
             (case split_on_first b ''_v'' of
                None \<Rightarrow> Some (TrimPrefix a ''terraform-provider-'' @ ''_'' @ TrimSuffix b ''.zip'')
              | Some r \<Rightarrow> None))
      else None)
   \<and> unused_key filename =
     (if HasPrefix filename ''terraform-provider-'' then
        (case split_on_first (TrimSuffix filename (filepath_Ext filename)) ''_'' of
           None \<Rightarrow> None
         | Some (a, r) \<Rightarrow>
             Some (TrimPrefix a ''terraform-provider-'' @ ''_''
                   @ TrimPrefix (case split_on_first r ''_'' of None \<Rightarrow> r | Some (b, rest) \<Rightarrow> b) ''v''))
      else None)"
  by (rule conjI [OF duplicate_key_first unused_key_first])

theorem file_name_keys_witness:
  "duplicate_key ''terraform-provider-aws_v3.74.0_linux_amd64.zip''
     = Some ''aws_3.74.0_linux_amd64''
   \<and> unused_key ''terraform-provider-aws_v3.74.0_linux_amd64.zip'' = Some ''aws_3.74.0''"
proof -
  have a: "split_on_first ''terraform-provider-aws_v3.74.0_linux_amd64.zip'' ''_v''
             = Some (''terraform-provider-aws'', ''3.74.0_linux_amd64.zip'')"
    by code_simp
  have b: "split_on_first ''3.74.0_linux_amd64.zip'' ''_v'' = None"
    by code_simp
  have c: "TrimSuffix ''terraform-provider-aws_v3.74.0_linux_amd64.zip''
             (filepath_Ext ''terraform-provider-aws_v3.74.0_linux_amd64.zip'')
           = ''terraform-provider-aws_v3.74.0_linux_amd64''"
    by code_simp
  have d: "split_on_first ''terraform-provider-aws_v3.74.0_linux_amd64'' ''_''
             = Some (''terraform-provider-aws'', ''v3.74.0_linux_amd64'')"
    by code_simp
  have e: "split_on_first ''v3.74.0_linux_amd64'' ''_'' = Some (''v3.74.0'', ''linux_amd64'')"
    by code_simp
  show ?thesis
    using file_name_keys_by_first_split [of "''terraform-provider-aws_v3.74.0_linux_amd64.zip''"]
    unfolding a b c d e
    by (simp add: HasPrefix_def HasSuffix_def TrimPrefix_def TrimSuffix_def)
qed

text \<open>
  C9 as stated fails. The name \<^verbatim>\<open>terraform-provider-aws_v3.74.0_linux_amd64_v1\<close> has
  \<^verbatim>\<open>_v\<close> twice; splitting at the first gives \<^verbatim>\<open>terraform-provider-aws\<close> and
  \<^verbatim>\<open>3.74.0_linux_amd64_v1\<close>, but Pass A gives the name no key and removes neither of
  two copies. For \<^verbatim>\<open>terraform-provider-foo_bar_v1.0.0_linux_amd64.zip\<close> Pass B takes
  \<^verbatim>\<open>foo\<close> for the name and \<^verbatim>\<open>bar\<close> for the version.
\<close>

theorem first_split_counterexample:
  "split_on_first ''terraform-provider-aws_v3.74.0_linux_amd64_v1'' ''_v''
     = Some (''terraform-provider-aws'', ''3.74.0_linux_amd64_v1'')
   \<and> duplicate_key ''terraform-provider-aws_v3.74.0_linux_amd64_v1'' = None
   \<and> cleanDuplicateProviders two_v_cache = (None, two_v_cache)
   \<and> split_on_first ''terraform-provider-foo_bar_v1.0.0_linux_amd64.zip'' ''_v''
     = Some (''terraform-provider-foo_bar'', ''1.0.0_linux_amd64.zip'')
   \<and> unused_key ''terraform-provider-foo_bar_v1.0.0_linux_amd64.zip'' = Some ''foo_bar''"
  by code_simp

subsection \<open>Pass A keeps the first file of a key\<close>

lemma dup_walk_Visit:
  "dup_walk locked seen (Visit path info # vs) =
     (case duplicate_key_of (Visit path info) of
        None \<Rightarrow> keep (Visit path info) (dup_walk locked seen vs)
      | Some key \<Rightarrow>
          if key \<in> seen then
            (if path \<in> locked then keep (Visit path info) (dup_walk locked seen vs)
             else dup_walk locked seen vs)
          else keep (Visit path info) (dup_walk locked (insert key seen) vs))"
  by (simp add: os_Remove_def split: option.splits)

lemma dup_walk_no_error:
  "fst (dup_walk locked seen vs) = None \<longleftrightarrow> \<not> list_ex is_walk_error vs"
proof (induction vs arbitrary: seen)
  case Nil
  then show ?case by simp
next
  case (Cons v vs)
  show ?case
  proof (cases v)
    case (Visit path info)
    with Cons.IH show ?thesis
      by (simp add: dup_walk_Visit keep_def split: option.splits del: dup_walk.simps)
  next
    case (VisitErr path e)
    then show ?thesis by simp
  qed
qed

lemma dup_walk_length: "length (snd (dup_walk locked seen vs)) \<le> length vs"
proof (induction vs arbitrary: seen)
  case Nil
  then show ?case by simp
next
  case (Cons v vs)
  show ?case
  proof (cases v)
    case (Visit path info)
    with Cons.IH [of seen] Cons.IH [of "insert (the (duplicate_key_of v)) seen"] show ?thesis
      by (auto simp: dup_walk_Visit keep_def le_SucI split: option.splits simp del: dup_walk.simps)
  next
    case (VisitErr path e)
    then show ?thesis by simp
  qed
qed

lemma artifacts_with_key_Cons:
  "artifacts_with_key k (v # vs) =
     (if duplicate_key_of v = Some k then v # artifacts_with_key k vs
      else artifacts_with_key k vs)"
  by (simp add: artifacts_with_key_def)

lemma dup_walk_artifacts:
  assumes "\<not> list_ex is_walk_error vs"
  shows "artifacts_with_key k (snd (dup_walk locked seen vs)) =
           (if k \<in> seen then filter (\<lambda>v. visit_path v \<in> locked) (artifacts_with_key k vs)
            else (case artifacts_with_key k vs of
                    [] \<Rightarrow> []
                  | first # later \<Rightarrow> first # filter (\<lambda>v. visit_path v \<in> locked) later))"
  using assms
proof (induction vs arbitrary: seen)
  case Nil
  then show ?case by (simp add: artifacts_with_key_def)
next
  case (Cons v vs)
  show ?case
  proof (cases v)
    case (VisitErr path e)
    with Cons.prems show ?thesis by simp
  next
    case (Visit path info)
    from Cons.prems have ne: "\<not> list_ex is_walk_error vs" by simp
    note IH = Cons.IH [OF ne]
    have p: "visit_path v = path" using Visit by simp
    show ?thesis
    proof (cases "duplicate_key_of v")
      case None
      then have "dup_walk locked seen (v # vs) = keep v (dup_walk locked seen vs)"
        unfolding Visit by (simp add: dup_walk_Visit del: dup_walk.simps)
      with None IH [of seen] show ?thesis
        by (simp add: keep_def artifacts_with_key_Cons)
    next
      case (Some key)
      show ?thesis
      proof (cases "key \<in> seen")
        case True
        with Some have "dup_walk locked seen (v # vs) =
            (if path \<in> locked then keep v (dup_walk locked seen vs) else dup_walk locked seen vs)"
          unfolding Visit by (simp add: dup_walk_Visit del: dup_walk.simps)
        with Some True p IH [of seen] show ?thesis
          by (auto simp add: keep_def artifacts_with_key_Cons)
      next
        case False
        with Some have step: "dup_walk locked seen (v # vs) =
            keep v (dup_walk locked (insert key seen) vs)"
          unfolding Visit by (simp add: dup_walk_Visit del: dup_walk.simps)
        show ?thesis
        proof (cases "key = k")
          case True
          with step Some False IH [of "insert k seen"] show ?thesis
            by (simp add: keep_def artifacts_with_key_Cons)
        next
          case False
          with step Some IH [of "insert key seen"] show ?thesis
            by (auto simp add: keep_def artifacts_with_key_Cons)
        qed
      qed
    qed
  qed
qed

lemma duplicate_key_of_iff:
  "duplicate_key_of (Visit path info) = Some k \<longleftrightarrow>
     \<not> IsDir info \<and> HasPrefix (Name info) ''terraform-provider-''
     \<and> (\<exists>a b. split_on_first (Name info) ''_v'' = Some (a, b)
              \<and> split_on_first b ''_v'' = None
              \<and> k = TrimPrefix a ''terraform-provider-'' @ ''_'' @ TrimSuffix b ''.zip'')"
  by (auto simp add: duplicate_key_first [of "Name info"] split: option.splits if_splits)

text \<open>
  C3, as amended. A file has the Pass A key \<open>k\<close> when it is not a directory, its name
  begins with \<^verbatim>\<open>terraform-provider-\<close> and contains \<^verbatim>\<open>_v\<close> exactly once, and \<open>k\<close> is
  what stands before \<^verbatim>\<open>_v\<close> without that prefix, an underscore, and everything that
  stands behind \<^verbatim>\<open>_v\<close> without a trailing \<^verbatim>\<open>.zip\<close>. When Pass A returns without
  error, of the files that have the key \<open>k\<close> the first of the walk stays, and of the
  later ones exactly those stay whose removal fails; when every later one can be
  removed, exactly the first is left.
\<close>

theorem dedup_keeps_first:
  assumes "fst (cleanDuplicateProviders c) = None"
    and "artifacts_with_key k (tree c) = first # later"
  shows "(\<forall>path info. Visit path info \<in> set (artifacts_with_key k (tree c)) \<longleftrightarrow>
            (Visit path info \<in> set (tree c) \<and> \<not> IsDir info
             \<and> HasPrefix (Name info) ''terraform-provider-''
             \<and> (\<exists>a b. split_on_first (Name info) ''_v'' = Some (a, b)
                      \<and> split_on_first b ''_v'' = None
                      \<and> k = TrimPrefix a ''terraform-provider-'' @ ''_''
                            @ TrimSuffix b ''.zip'')))
       \<and> artifacts_with_key k (tree (snd (cleanDuplicateProviders c)))
           = first # filter (\<lambda>v. visit_path v \<in> unremovable c) later
       \<and> ((\<forall>v\<in>set later. visit_path v \<notin> unremovable c) \<longrightarrow>
            artifacts_with_key k (tree (snd (cleanDuplicateProviders c))) = [first])"
proof -
  have which: "\<forall>path info. Visit path info \<in> set (artifacts_with_key k (tree c)) \<longleftrightarrow>
            (Visit path info \<in> set (tree c) \<and> \<not> IsDir info
             \<and> HasPrefix (Name info) ''terraform-provider-''
             \<and> (\<exists>a b. split_on_first (Name info) ''_v'' = Some (a, b)
                      \<and> split_on_first b ''_v'' = None
                      \<and> k = TrimPrefix a ''terraform-provider-'' @ ''_''
                            @ TrimSuffix b ''.zip''))"
    unfolding artifacts_with_key_def set_filter mem_Collect_eq duplicate_key_of_iff
    by blast
  from assms(1) have "fst (dup_walk (unremovable c) {} (tree c)) = None"
    by (simp add: cleanDuplicateProviders_def split: prod.splits option.splits)
  then have ne: "\<not> list_ex is_walk_error (tree c)"
    by (simp add: dup_walk_no_error)
  have "tree (snd (cleanDuplicateProviders c)) = snd (dup_walk (unremovable c) {} (tree c))"
    by (simp add: cleanDuplicateProviders_def split: prod.splits option.splits)
  with dup_walk_artifacts [OF ne, of k "unremovable c" "{}"] assms(2)
  have eq: "artifacts_with_key k (tree (snd (cleanDuplicateProviders c)))
              = first # filter (\<lambda>v. visit_path v \<in> unremovable c) later"
    by simp
  moreover have "(\<forall>v\<in>set later. visit_path v \<notin> unremovable c) \<longrightarrow>
                   filter (\<lambda>v. visit_path v \<in> unremovable c) later = []"
    by (simp add: filter_empty_conv)
  ultimately show ?thesis using which by simp
qed

theorem dedup_keeps_first_witness:
  "fst (cleanDuplicateProviders example_cache) = None
   \<and> artifacts_with_key ''aws_3.74.0_linux_amd64'' (tree example_cache)
       = tree example_cache ! 1 # [tree example_cache ! 2]
   \<and> visit_path (tree example_cache ! 2) \<notin> unremovable example_cache
   \<and> artifacts_with_key ''aws_3.74.0_linux_amd64''
        (tree (snd (cleanDuplicateProviders example_cache)))
       = [Visit ''/cache/a/terraform-provider-aws_v3.74.0_linux_amd64.zip''
            \<lparr>Name = ''terraform-provider-aws_v3.74.0_linux_amd64.zip'', IsDir = False\<rparr>]"
proof -
  have h1: "fst (cleanDuplicateProviders example_cache) = None"
    by code_simp
  have h2: "artifacts_with_key ''aws_3.74.0_linux_amd64'' (tree example_cache)
              = tree example_cache ! 1 # [tree example_cache ! 2]"
    by code_simp
  have h3: "\<forall>v\<in>set [tree example_cache ! 2]. visit_path v \<notin> unremovable example_cache"
    by (simp add: example_cache_def)
  have h4: "tree example_cache ! 1
              = Visit ''/cache/a/terraform-provider-aws_v3.74.0_linux_amd64.zip''
                  \<lparr>Name = ''terraform-provider-aws_v3.74.0_linux_amd64.zip'', IsDir = False\<rparr>"
    by (simp add: example_cache_def)
  show ?thesis
    using h1 h2 h3 h4 dedup_keeps_first [OF h1 h2] by simp
qed

text \<open>
  C3 as stated fails. In \<open>platforms_cache\<close> three files share the provider name
  \<^verbatim>\<open>aws\<close> and the version 3.74.0 (the key of Pass B is \<^verbatim>\<open>aws_3.74.0\<close> for each). The
  one for another platform has another Pass A key, and the second copy for the first
  platform cannot be removed: Pass A returns without error and all three are still
  there.
\<close>

theorem dedup_counterexample:
  "unused_key ''terraform-provider-aws_v3.74.0_linux_amd64.zip'' = Some ''aws_3.74.0''
   \<and> unused_key ''terraform-provider-aws_v3.74.0_darwin_arm64.zip'' = Some ''aws_3.74.0''
   \<and> duplicate_key ''terraform-provider-aws_v3.74.0_linux_amd64.zip''
       = Some ''aws_3.74.0_linux_amd64''
   \<and> duplicate_key ''terraform-provider-aws_v3.74.0_darwin_arm64.zip''
       = Some ''aws_3.74.0_darwin_arm64''
   \<and> cleanDuplicateProviders platforms_cache = (None, platforms_cache)"
  by code_simp

subsection \<open>A used artifact\<close>

lemma unused_walk_keeps:
  assumes "v \<in> set vs" and "kept_by_unused locked used v"
  shows "v \<in> set (snd (unused_walk locked used vs))"
  using assms
proof (induction vs)
  case Nil
  then show ?case by simp
next
  case (Cons u vs)
  show ?case
  proof (cases u)
    case (VisitErr path e)
    with Cons.prems show ?thesis by simp
  next
    case (Visit path info)
    show ?thesis
    proof (cases "v = u")
      case True
      with Cons.prems(2) Visit show ?thesis
        by (auto simp: keep_def kept_by_unused_def os_Remove_def split: option.splits)
    next
      case False
      with Cons.prems have "v \<in> set vs" by simp
      from Cons.IH [OF this Cons.prems(2)] Visit show ?thesis
        by (auto simp: keep_def os_Remove_def split: option.splits)
    qed
  qed
qed

lemma dup_walk_keeps_first:
  assumes "\<forall>u\<in>set earlier. duplicate_key_of u = None \<or> duplicate_key_of u \<noteq> duplicate_key_of v"
    and "\<forall>k. duplicate_key_of v = Some k \<longrightarrow> k \<notin> seen"
  shows "v \<in> set (snd (dup_walk locked seen (earlier @ v # later)))"
  using assms
proof (induction earlier arbitrary: seen)
  case Nil
  show ?case
  proof (cases v)
    case (VisitErr path e)
    then show ?thesis by simp
  next
    case (Visit path info)
    with Nil.prems(2) show ?thesis
      by (cases "duplicate_key_of v")
         (auto simp add: dup_walk_Visit keep_def simp del: dup_walk.simps)
  qed
next
  case (Cons u earlier)
  from Cons.prems(1) have rest: "\<forall>u\<in>set earlier. duplicate_key_of u = None
      \<or> duplicate_key_of u \<noteq> duplicate_key_of v" by simp
  from Cons.prems(1) have hd: "duplicate_key_of u = None \<or> duplicate_key_of u \<noteq> duplicate_key_of v"
    by simp
  show ?case
  proof (cases u)
    case (VisitErr path e)
    then show ?thesis by simp
  next
    case (Visit path info)
    show ?thesis
    proof (cases "duplicate_key_of u")
      case None
      with Visit Cons.IH [OF rest Cons.prems(2)] show ?thesis
        by (simp add: dup_walk_Visit keep_def del: dup_walk.simps)
    next
      case (Some ku)
      with hd Cons.prems(2) have "\<forall>k. duplicate_key_of v = Some k \<longrightarrow> k \<notin> insert ku seen"
        by auto
      from Cons.IH [OF rest this] Cons.IH [OF rest Cons.prems(2)] Some Visit show ?thesis
        by (simp add: dup_walk_Visit keep_def del: dup_walk.simps)
    qed
  qed
qed

lemma cleanDuplicateProviders_eq:
  "cleanDuplicateProviders c =
     (map_option CleanDuplicatesFailed (fst (dup_walk (unremovable c) {} (tree c))),
      c\<lparr>tree := snd (dup_walk (unremovable c) {} (tree c))\<rparr>)"
  by (simp add: cleanDuplicateProviders_def split: prod.splits option.splits)

lemma cleanUnusedProviders_keeps_used:
  assumes envs: "getEnvironments W envPath = Inr envs"
    and used: "collectUsedProviders L W envs envPath = Returned (usedProviders, e)"
    and key: "unused_key (Name info) = Some key" "key \<in> usedProviders"
    and mem: "Visit path info \<in> set (tree c)"
  shows "Visit path info \<in> set (tree (snd (cleanUnusedProviders L W c envPath)))"
proof -
  from used have e: "e = None" by (rule collect_nil_error)
  from key have kept: "kept_by_unused (unremovable c) usedProviders (Visit path info)"
    by (simp add: kept_by_unused_def)
  have walk: "Visit path info \<in> set (snd (unused_walk (unremovable c) usedProviders (tree c)))"
    by (rule unused_walk_keeps [OF mem kept])
  show ?thesis
  proof (cases "envs = [] \<or> usedProviders = {}")
    case True
    with envs used e mem show ?thesis by (auto simp add: cleanUnusedProviders_def)
  next
    case False
    with envs used e walk show ?thesis
      by (auto simp add: cleanUnusedProviders_def split: prod.splits option.splits)
  qed
qed

lemma ext_scan_dot:
  "CHR ''.'' \<notin> set r \<Longrightarrow> CHR ''/'' \<notin> set r \<Longrightarrow>
   ext_scan (r @ CHR ''.'' # rest) acc = CHR ''.'' # rev r @ acc"
  by (induction r arbitrary: acc) auto

lemma filepath_Ext_dot:
  assumes "CHR ''.'' \<notin> set ext" and "CHR ''/'' \<notin> set ext"
  shows "filepath_Ext (s @ CHR ''.'' # ext) = CHR ''.'' # ext"
  using ext_scan_dot [of "rev ext" "rev s" "[]"] assms by (simp add: filepath_Ext_def)

lemma TrimSuffix_append: "TrimSuffix (s @ suf) suf = s"
  by (simp add: TrimSuffix_def HasSuffix_def)

lemma TrimPrefix_append: "TrimPrefix (pre @ s) pre = s"
  by (simp add: TrimPrefix_def HasPrefix_def)

lemma split_on_first_char:
  "c \<notin> set a \<Longrightarrow> split_on_first (a @ c # b) [c] = Some (a, b)"
  by (induction a) (auto simp: HasPrefix_def)

lemma unused_key_parts:
  assumes "HasPrefix f ''terraform-provider-''"
    and "TrimSuffix f (filepath_Ext f) = base"
    and "split_on_first base ''_'' = Some (a, r)"
    and "split_on_first r ''_'' = Some (b, rest)"
  shows "unused_key f = Some (TrimPrefix a ''terraform-provider-'' @ ''_'' @ TrimPrefix b ''v'')"
  using assms by (simp add: unused_key_first [of f])

text \<open>
  The key of Pass B for a name that follows the convention and ends in an extension
  is the name and the version of the artifact.
\<close>

lemma unused_key_conventional:
  assumes "CHR ''_'' \<notin> set name" and "CHR ''_'' \<notin> set version"
    and "CHR ''.'' \<notin> set ext" and "CHR ''/'' \<notin> set ext"
  shows "unused_key (''terraform-provider-'' @ name @ ''_v'' @ version @ ''_'' @ platform
                      @ ''.'' @ ext)
           = Some (name @ ''_'' @ version)"
proof -
  define P where "P = ''terraform-provider-''"
  define r where "r = CHR ''v'' # version @ CHR ''_'' # platform"
  define base where "base = (P @ name) @ CHR ''_'' # r"
  define f where "f = base @ CHR ''.'' # ext"
  have f: "''terraform-provider-'' @ name @ ''_v'' @ version @ ''_'' @ platform @ ''.'' @ ext = f"
    by (simp add: f_def base_def r_def P_def)
  have pre: "HasPrefix f ''terraform-provider-''"
    by (simp add: f_def base_def P_def HasPrefix_def)
  have "filepath_Ext f = CHR ''.'' # ext"
    unfolding f_def by (rule filepath_Ext_dot [OF assms(3,4)])
  then have tb: "TrimSuffix f (filepath_Ext f) = base"
    by (simp add: f_def TrimSuffix_append)
  have "CHR ''_'' \<notin> set (P @ name)" using assms(1) by (simp add: P_def)
  then have c1: "split_on_first base ''_'' = Some (P @ name, r)"
    unfolding base_def by (rule split_on_first_char)
  have "CHR ''_'' \<notin> set (CHR ''v'' # version)" using assms(2) by simp
  from split_on_first_char [OF this, of platform]
  have c2: "split_on_first r ''_'' = Some (CHR ''v'' # version, platform)"
    by (simp add: r_def)
  have t1: "TrimPrefix (P @ name) ''terraform-provider-'' = name"
    unfolding P_def by (rule TrimPrefix_append)
  have t2: "TrimPrefix (CHR ''v'' # version) ''v'' = version"
    using TrimPrefix_append [of "''v''" version] by simp
  from unused_key_parts [OF pre tb c1 c2] t1 t2 f show ?thesis by simp
qed

text \<open>
  C1, as amended. Take a file of the cache whose name follows the convention
  \<^verbatim>\<open>terraform-provider-<name>_v<version>_<os>_<arch>.<ext>\<close>, with no underscore in
  the name and in the version and an extension without a dot, and let the used set
  of the run contain \<^verbatim>\<open><name>_<version>\<close>. Then Pass B does not remove the file. When
  no earlier file of the walk has the same Pass A key, Pass A does not remove it
  either, and the file is still in the cache after the whole run.
\<close>

theorem used_artifact_survives:
  assumes envs: "getEnvironments W envPath = Inr envs"
    and used: "collectUsedProviders L W envs envPath = Returned (usedProviders, e)"
    and name: "Name info = ''terraform-provider-'' @ name @ ''_v'' @ version @ ''_'' @ platform
                 @ ''.'' @ ext"
    and chars: "CHR ''_'' \<notin> set name" "CHR ''_'' \<notin> set version"
               "CHR ''.'' \<notin> set ext" "CHR ''/'' \<notin> set ext"
    and key: "name @ ''_'' @ version \<in> usedProviders"
    and mem: "tree c = earlier @ Visit path info # later"
  shows "Visit path info \<in> set (tree (snd (cleanUnusedProviders L W c envPath)))
       \<and> ((\<forall>u\<in>set earlier. duplicate_key_of u = None
               \<or> duplicate_key_of u \<noteq> duplicate_key_of (Visit path info))
            \<longrightarrow> Visit path info \<in> set (tree (snd (cleanDuplicateProviders c)))
              \<and> Visit path info \<in> set (tree (snd (reconcile L W envPath c))))"
proof -
  have k: "unused_key (Name info) = Some (name @ ''_'' @ version)"
    unfolding name by (rule unused_key_conventional [OF chars])
  from mem have "Visit path info \<in> set (tree c)" by simp
  then have passB: "Visit path info \<in> set (tree (snd (cleanUnusedProviders L W c envPath)))"
    by (rule cleanUnusedProviders_keeps_used [OF envs used k key])
  have run: "Visit path info \<in> set (tree (snd (cleanDuplicateProviders c)))
              \<and> Visit path info \<in> set (tree (snd (reconcile L W envPath c)))"
    if first: "\<forall>u\<in>set earlier. duplicate_key_of u = None
               \<or> duplicate_key_of u \<noteq> duplicate_key_of (Visit path info)"
  proof -
    have "Visit path info
            \<in> set (snd (dup_walk (unremovable c) {} (earlier @ Visit path info # later)))"
      by (rule dup_walk_keeps_first [OF first]) simp
    with mem have a: "Visit path info \<in> set (tree (snd (cleanDuplicateProviders c)))"
      by (simp add: cleanDuplicateProviders_eq)
    have "Visit path info \<in> set (tree (snd (reconcile L W envPath c)))"
    proof (cases "fst (cleanDuplicateProviders c)")
      case (Some err)
      with a show ?thesis
        by (auto simp add: reconcile_def split: prod.splits)
    next
      case None
      then have "snd (reconcile L W envPath c)
                   = snd (cleanUnusedProviders L W (snd (cleanDuplicateProviders c)) envPath)"
        by (auto simp add: reconcile_def split: prod.splits)
      with cleanUnusedProviders_keeps_used [OF envs used k key a] show ?thesis by simp
    qed
    with a show ?thesis by simp
  qed
  from passB run show ?thesis by blast
qed

theorem used_artifact_witness:
  "getEnvironments flat_world ''/base'' = Inr [''dev'']
   \<and> collectUsedProviders plain_libraries flat_world [''dev''] ''/base''
       = Returned ({''aws_3.74.0''}, None)
   \<and> ''terraform-provider-aws_v3.74.0_linux_amd64.zip''
       = ''terraform-provider-'' @ ''aws'' @ ''_v'' @ ''3.74.0'' @ ''_'' @ ''linux_amd64''
           @ ''.'' @ ''zip''
   \<and> ''aws'' @ ''_'' @ ''3.74.0'' \<in> {''aws_3.74.0''}
   \<and> tree example_cache = [tree example_cache ! 0]
        @ Visit ''/cache/a/terraform-provider-aws_v3.74.0_linux_amd64.zip''
            \<lparr>Name = ''terraform-provider-aws_v3.74.0_linux_amd64.zip'', IsDir = False\<rparr>
        # [tree example_cache ! 2, tree example_cache ! 3]
   \<and> Visit ''/cache/a/terraform-provider-aws_v3.74.0_linux_amd64.zip''
        \<lparr>Name = ''terraform-provider-aws_v3.74.0_linux_amd64.zip'', IsDir = False\<rparr>
        \<in> set (tree (snd (cleanUnusedProviders plain_libraries flat_world example_cache
                              ''/base'')))
   \<and> Visit ''/cache/a/terraform-provider-aws_v3.74.0_linux_amd64.zip''
        \<lparr>Name = ''terraform-provider-aws_v3.74.0_linux_amd64.zip'', IsDir = False\<rparr>
        \<in> set (tree (snd (reconcile plain_libraries flat_world ''/base'' example_cache)))"
proof -
  let ?info = "\<lparr>Name = ''terraform-provider-aws_v3.74.0_linux_amd64.zip'', IsDir = False\<rparr>"
  let ?v = "Visit ''/cache/a/terraform-provider-aws_v3.74.0_linux_amd64.zip'' ?info"
  have h1: "getEnvironments flat_world ''/base'' = Inr [''dev'']" by code_simp
  have h2: "collectUsedProviders plain_libraries flat_world [''dev''] ''/base''
       = Returned ({''aws_3.74.0''}, None)" by code_simp
  have h3: "Name ?info = ''terraform-provider-'' @ ''aws'' @ ''_v'' @ ''3.74.0'' @ ''_''
              @ ''linux_amd64'' @ ''.'' @ ''zip''"
    by simp
  have c1: "CHR ''_'' \<notin> set ''aws''" by simp
  have c2: "CHR ''_'' \<notin> set ''3.74.0''" by simp
  have c3: "CHR ''.'' \<notin> set ''zip''" by simp
  have c4: "CHR ''/'' \<notin> set ''zip''" by simp
  have h4: "''aws'' @ ''_'' @ ''3.74.0'' \<in> {''aws_3.74.0''}" by simp
  have h5: "tree example_cache
              = [tree example_cache ! 0] @ ?v # [tree example_cache ! 2, tree example_cache ! 3]"
    by (simp add: example_cache_def)
  have h6: "\<forall>u\<in>set [tree example_cache ! 0]. duplicate_key_of u = None
               \<or> duplicate_key_of u \<noteq> duplicate_key_of ?v"
    by (simp add: example_cache_def)
  show ?thesis
    using h1 h2 h3 h4 h5 h6 used_artifact_survives [OF h1 h2 h3 c1 c2 c3 c4 h4 h5] by simp
qed

text \<open>
  C1 as stated fails. With \<open>flat_world\<close> the used set is \<^verbatim>\<open>aws_3.74.0\<close>, which is the
  key of both copies of that artifact in \<open>example_cache\<close>; Pass A removes the second
  copy, and it is gone after the run.
\<close>

theorem used_artifact_counterexample:
  "collectUsedProviders plain_libraries flat_world [''dev''] ''/base''
     = Returned ({''aws_3.74.0''}, None)
   \<and> unused_key ''terraform-provider-aws_v3.74.0_linux_amd64.zip'' = Some ''aws_3.74.0''
   \<and> Visit ''/cache/b/terraform-provider-aws_v3.74.0_linux_amd64.zip''
        \<lparr>Name = ''terraform-provider-aws_v3.74.0_linux_amd64.zip'', IsDir = False\<rparr>
        \<in> set (tree example_cache)
   \<and> Visit ''/cache/b/terraform-provider-aws_v3.74.0_linux_amd64.zip''
        \<lparr>Name = ''terraform-provider-aws_v3.74.0_linux_amd64.zip'', IsDir = False\<rparr>
        \<notin> set (tree (snd (cleanDuplicateProviders example_cache)))
   \<and> Visit ''/cache/b/terraform-provider-aws_v3.74.0_linux_amd64.zip''
        \<lparr>Name = ''terraform-provider-aws_v3.74.0_linux_amd64.zip'', IsDir = False\<rparr>
        \<notin> set (tree (snd (reconcile plain_libraries flat_world ''/base'' example_cache)))"
  by code_simp

subsection \<open>Idempotence\<close>

lemma dup_walk_idem:
  "dup_walk locked seen (snd (dup_walk locked seen vs)) = dup_walk locked seen vs"
proof (induction vs arbitrary: seen)
  case Nil
  then show ?case by simp
next
  case (Cons v vs)
  show ?case
  proof (cases v)
    case (VisitErr path e)
    then show ?thesis by simp
  next
    case (Visit path info)
    show ?thesis
    proof (cases "duplicate_key_of v")
      case None
      with Visit Cons.IH [of seen] show ?thesis
        by (simp add: dup_walk_Visit keep_def del: dup_walk.simps)
    next
      case (Some key)
      with Visit Cons.IH [of seen] Cons.IH [of "insert key seen"] show ?thesis
        by (simp add: dup_walk_Visit keep_def del: dup_walk.simps)
    qed
  qed
qed

lemma dup_walk_fixed_filter:
  assumes "dup_walk locked seen vs = (None, vs)" and "seen' \<subseteq> seen"
  shows "dup_walk locked seen' (filter P vs) = (None, filter P vs)"
  using assms
proof (induction vs arbitrary: seen seen')
  case Nil
  then show ?case by simp
next
  case (Cons v vs)
  show ?case
  proof (cases v)
    case (VisitErr path e)
    with Cons.prems show ?thesis by simp
  next
    case (Visit path info)
    have len: "\<And>s. snd (dup_walk locked s vs) \<noteq> v # vs"
      using dup_walk_length [of locked _ vs]
      by (metis impossible_Cons)
    show ?thesis
    proof (cases "duplicate_key_of v")
      case None
      with Visit Cons.prems(1) have "dup_walk locked seen vs = (None, vs)"
        by (simp add: dup_walk_Visit keep_def prod_eq_iff del: dup_walk.simps)
      from Cons.IH [OF this Cons.prems(2)] None Visit show ?thesis
        by (simp add: dup_walk_Visit keep_def del: dup_walk.simps)
    next
      case (Some key)
      show ?thesis
      proof (cases "key \<in> seen")
        case True
        with Some Visit Cons.prems(1) len [of seen]
        have fx: "dup_walk locked seen vs = (None, vs)" and lk: "path \<in> locked"
          by (auto simp add: dup_walk_Visit keep_def prod_eq_iff simp del: dup_walk.simps
              split: if_splits)
        have sub: "insert key seen' \<subseteq> seen" using True Cons.prems(2) by simp
        from Cons.IH [OF fx Cons.prems(2)] Cons.IH [OF fx sub] Some Visit lk show ?thesis
          by (simp add: dup_walk_Visit keep_def del: dup_walk.simps)
      next
        case False
        with Some Visit Cons.prems(1)
        have fx: "dup_walk locked (insert key seen) vs = (None, vs)"
          by (simp add: dup_walk_Visit keep_def prod_eq_iff del: dup_walk.simps)
        have sub1: "seen' \<subseteq> insert key seen" using Cons.prems(2) by auto
        have sub2: "insert key seen' \<subseteq> insert key seen" using Cons.prems(2) by auto
        from False Cons.prems(2) have "key \<notin> seen'" by auto
        with Cons.IH [OF fx sub1] Cons.IH [OF fx sub2] Some Visit show ?thesis
          by (simp add: dup_walk_Visit keep_def del: dup_walk.simps)
      qed
    qed
  qed
qed

lemma unused_walk_filter:
  assumes "\<not> list_ex is_walk_error vs"
  shows "unused_walk locked used vs = (None, filter (kept_by_unused locked used) vs)"
  using assms
proof (induction vs)
  case Nil
  then show ?case by simp
next
  case (Cons v vs)
  then show ?case
    by (cases v) (auto simp: keep_def kept_by_unused_def os_Remove_def split: option.splits)
qed

lemma cleanUnusedProviders_cases:
  "(\<exists>out. \<forall>c. cleanUnusedProviders L W c baseEnvDir = (out, c))
   \<or> (\<exists>used. \<forall>c. cleanUnusedProviders L W c baseEnvDir =
         (case unused_walk (unremovable c) used (tree c) of
            (Some err, t) \<Rightarrow> (Failed (CleanPluginCacheFailed err), c\<lparr>tree := t\<rparr>)
          | (None, t) \<Rightarrow> (Completed, c\<lparr>tree := t\<rparr>)))"
proof (cases "getEnvironments W baseEnvDir")
  case (Inl err)
  then have "\<forall>c. cleanUnusedProviders L W c baseEnvDir
               = (Failed (ListEnvironmentsFailed err), c)"
    by (simp add: cleanUnusedProviders_def)
  then show ?thesis by blast
next
  case (Inr envs)
  show ?thesis
  proof (cases "envs = []")
    case True
    with Inr have "\<forall>c. cleanUnusedProviders L W c baseEnvDir = (SkippedNoEnvironments, c)"
      by (simp add: cleanUnusedProviders_def)
    then show ?thesis by blast
  next
    case False
    show ?thesis
    proof (cases "collectUsedProviders L W envs baseEnvDir")
      case (Panicked msg)
      with Inr False have "\<forall>c. cleanUnusedProviders L W c baseEnvDir = (Panic msg, c)"
        by (simp add: cleanUnusedProviders_def)
      then show ?thesis by blast
    next
      case (Returned r)
      obtain used e where r: "r = (used, e)" by (cases r)
      with Returned have e: "e = None" by (simp add: collect_nil_error)
      show ?thesis
      proof (cases "used = {}")
        case True
        with Inr False Returned r e
        have "\<forall>c. cleanUnusedProviders L W c baseEnvDir = (SkippedNoProviders, c)"
          by (simp add: cleanUnusedProviders_def)
        then show ?thesis by blast
      next
        case nonempty: False
        with Inr False Returned r e have
          "\<forall>c. cleanUnusedProviders L W c baseEnvDir =
           (case unused_walk (unremovable c) used (tree c) of
              (Some err, t) \<Rightarrow> (Failed (CleanPluginCacheFailed err), c\<lparr>tree := t\<rparr>)
            | (None, t) \<Rightarrow> (Completed, c\<lparr>tree := t\<rparr>))"
          by (simp add: cleanUnusedProviders_def)
        then show ?thesis by blast
      qed
    qed
  qed
qed

text \<open>
  C6. Running the reconciliation on the cache that a first run has left gives the
  same outcome and the same cache again: the second run removes nothing. This holds
  for every cache, with walk errors and with files that cannot be removed, as long as
  the world (environments, configuration files, registry answers) is the same.
\<close>

theorem reconcile_idempotent:
  "reconcile L W envPath (snd (reconcile L W envPath c)) = reconcile L W envPath c"
proof (cases "fst (dup_walk (unremovable c) {} (tree c))")
  case (Some e)
  let ?c1 = "c\<lparr>tree := snd (dup_walk (unremovable c) {} (tree c))\<rparr>"
  from Some have r1: "reconcile L W envPath c = (ExitedAfterDuplicates (CleanDuplicatesFailed e), ?c1)"
    by (simp add: reconcile_def cleanDuplicateProviders_eq)
  have "cleanDuplicateProviders ?c1 = (Some (CleanDuplicatesFailed e), ?c1)"
    using Some by (simp add: cleanDuplicateProviders_eq dup_walk_idem)
  then have "reconcile L W envPath ?c1 = (ExitedAfterDuplicates (CleanDuplicatesFailed e), ?c1)"
    by (simp add: reconcile_def)
  with r1 show ?thesis by simp
next
  case None
  let ?L = "unremovable c"
  let ?t = "snd (dup_walk ?L {} (tree c))"
  let ?c1 = "c\<lparr>tree := ?t\<rparr>"
  from None have a1: "cleanDuplicateProviders c = (None, ?c1)"
    by (simp add: cleanDuplicateProviders_eq)
  have "dup_walk ?L {} ?t = dup_walk ?L {} (tree c)" by (rule dup_walk_idem)
  with None have fx: "dup_walk ?L {} ?t = (None, ?t)" by (simp add: prod_eq_iff)
  then have ne: "\<not> list_ex is_walk_error ?t"
    using dup_walk_no_error [of ?L "{}" ?t] by simp
  from fx have a2: "cleanDuplicateProviders ?c1 = (None, ?c1)"
    by (simp add: cleanDuplicateProviders_eq)
  from cleanUnusedProviders_cases [of L W envPath] show ?thesis
  proof
    assume "\<exists>out. \<forall>c. cleanUnusedProviders L W c envPath = (out, c)"
    then obtain out where out: "\<And>c. cleanUnusedProviders L W c envPath = (out, c)" by blast
    from a1 out have "reconcile L W envPath c = (Finished out, ?c1)"
      by (simp add: reconcile_def)
    moreover from a2 out have "reconcile L W envPath ?c1 = (Finished out, ?c1)"
      by (simp add: reconcile_def)
    ultimately show ?thesis by simp
  next
    assume "\<exists>used. \<forall>c. cleanUnusedProviders L W c envPath =
         (case unused_walk (unremovable c) used (tree c) of
            (Some err, t) \<Rightarrow> (Failed (CleanPluginCacheFailed err), c\<lparr>tree := t\<rparr>)
          | (None, t) \<Rightarrow> (Completed, c\<lparr>tree := t\<rparr>))"
    then obtain used where b: "\<And>c. cleanUnusedProviders L W c envPath =
         (case unused_walk (unremovable c) used (tree c) of
            (Some err, t) \<Rightarrow> (Failed (CleanPluginCacheFailed err), c\<lparr>tree := t\<rparr>)
          | (None, t) \<Rightarrow> (Completed, c\<lparr>tree := t\<rparr>))" by blast
    let ?t2 = "filter (kept_by_unused ?L used) ?t"
    let ?c2 = "c\<lparr>tree := ?t2\<rparr>"
    have b1: "cleanUnusedProviders L W ?c1 envPath = (Completed, ?c2)"
      by (simp add: b unused_walk_filter [OF ne])
    with a1 have r1: "reconcile L W envPath c = (Finished Completed, ?c2)"
      by (simp add: reconcile_def)
    have fx2: "dup_walk ?L {} ?t2 = (None, ?t2)"
      by (rule dup_walk_fixed_filter [OF fx]) simp
    then have a3: "cleanDuplicateProviders ?c2 = (None, ?c2)"
      by (simp add: cleanDuplicateProviders_eq)
    have ne2: "\<not> list_ex is_walk_error ?t2"
      using fx2 dup_walk_no_error [of ?L "{}" ?t2] by simp
    have "cleanUnusedProviders L W ?c2 envPath = (Completed, ?c2)"
      by (simp add: b unused_walk_filter [OF ne2])
    with a3 have "reconcile L W envPath ?c2 = (Finished Completed, ?c2)"
      by (simp add: reconcile_def)
    with r1 show ?thesis by simp
  qed
qed

theorem reconcile_idempotent_witness:
  "reconcile plain_libraries flat_world ''/base'' example_cache
     = (Finished Completed,
        example_cache\<lparr>tree := [tree example_cache ! 0, tree example_cache ! 1]\<rparr>)
   \<and> reconcile plain_libraries flat_world ''/base''
        (example_cache\<lparr>tree := [tree example_cache ! 0, tree example_cache ! 1]\<rparr>)
     = (Finished Completed,
        example_cache\<lparr>tree := [tree example_cache ! 0, tree example_cache ! 1]\<rparr>)"
proof -
  have r: "reconcile plain_libraries flat_world ''/base'' example_cache
     = (Finished Completed,
        example_cache\<lparr>tree := [tree example_cache ! 0, tree example_cache ! 1]\<rparr>)"
    by code_simp
  show ?thesis
    using r reconcile_idempotent [of plain_libraries flat_world "''/base''" example_cache]
    by simp
qed

end
